theory Spec2Isabelle
  imports Complex_Main "HOL-Library.Sublist" "HOL-Library.Char_ord" "HOL-Library.List_Lexorder"
begin

section \<open>Strings and paths\<close>

text \<open>
  The archiver (package \<open>archiver\<close>) works on Go strings, which are byte sequences; a
  \<^typ>\<open>string\<close> is the list of its bytes. \<open>strings.HasPrefix\<close>, \<open>strings.HasSuffix\<close> and
  \<open>strings.Contains\<close> are \<^const>\<open>prefix\<close>, \<^const>\<open>suffix\<close> and \<^const>\<open>sublist\<close>.
  The functions of \<open>path/filepath\<close> are those of a Unix build: the separator is the
  slash and there is no volume name.
\<close>

definition Separator :: char where
  "Separator = CHR ''/''"

text \<open>
  \<open>strings.ToLower\<close>. In a string of ASCII bytes the letters \<open>A\<close> to \<open>Z\<close> are mapped and
  every other byte is kept. Any other string is mapped rune by rune with
  \<open>unicode.ToLower\<close> (\<open>strings.Map\<close>); the tables of Unicode are the library's, and that
  mapping is the parameter \<open>lowering\<close>.
\<close>

definition toLowerByte :: "char \<Rightarrow> char" where
  "toLowerByte c =
     (if (65::nat) \<le> of_char c \<and> of_char c \<le> (90::nat)
      then char_of (of_char c + (32::nat)) else c)"

definition isASCII :: "string \<Rightarrow> bool" where
  "isASCII s = list_all (\<lambda>c. (of_char c :: nat) < 128) s"

definition ToLower :: "(string \<Rightarrow> string) \<Rightarrow> string \<Rightarrow> string" where
  "ToLower lowering s = (if isASCII s then map toLowerByte s else lowering s)"

text \<open>The elements of a path: the runs of bytes between separators (empty runs included).\<close>

fun splitAcc :: "string \<Rightarrow> string \<Rightarrow> string list" where
  "splitAcc acc [] = [rev acc]"
| "splitAcc acc (c # cs) =
     (if c = Separator then rev acc # splitAcc [] cs else splitAcc (c # acc) cs)"

definition splitPath :: "string \<Rightarrow> string list" where
  "splitPath p = splitAcc [] p"

fun joinSep :: "string list \<Rightarrow> string" where
  "joinSep [] = []"
| "joinSep [e] = e"
| "joinSep (e # es) = e @ [Separator] @ joinSep es"

text \<open>
  \<open>filepath.Clean\<close>: empty elements and \<open>.\<close> are dropped; \<open>..\<close> removes the element
  before it when there is one that is not \<open>..\<close> itself, is dropped at the root of a rooted
  path, and is kept otherwise. \<open>out\<close> is the output so far, last element first.
\<close>

fun cleanElems :: "bool \<Rightarrow> string list \<Rightarrow> string list \<Rightarrow> string list" where
  "cleanElems rooted out [] = rev out"
| "cleanElems rooted out (e # es) =
     (if e = [] \<or> e = ''.'' then cleanElems rooted out es
      else if e = ''..'' then
        (case out of
           [] \<Rightarrow> if rooted then cleanElems rooted [] es else cleanElems rooted [''..''] es
         | l # ls \<Rightarrow>
             if l = ''..'' then cleanElems rooted (''..'' # out) es
             else cleanElems rooted ls es)
      else cleanElems rooted (e # out) es)"

definition isRooted :: "string \<Rightarrow> bool" where
  "isRooted p = (case p of [] \<Rightarrow> False | c # _ \<Rightarrow> c = Separator)"

definition Clean :: "string \<Rightarrow> string" where
  "Clean p =
     (if p = [] then ''.''
      else
        let es = cleanElems (isRooted p) [] (splitPath p);
            s = (if isRooted p then [Separator] else []) @ joinSep es
        in if s = [] then ''.'' else s)"

text \<open>\<open>filepath.Join\<close>: the elements from the first non-empty one on, joined by the
  separator and cleaned; the empty string when every element is empty.\<close>

fun Join :: "string list \<Rightarrow> string" where
  "Join [] = []"
| "Join (e # es) = (if e \<noteq> [] then Clean (joinSep (e # es)) else Join es)"

text \<open>\<open>filepath.Base\<close>: the last element of the path, trailing separators removed.\<close>

definition Base :: "string \<Rightarrow> string" where
  "Base p =
     (if p = [] then ''.''
      else
        let q = dropWhile (\<lambda>c. c = Separator) (rev p);
            b = rev (takeWhile (\<lambda>c. c \<noteq> Separator) q)
        in if b = [] then [Separator] else b)"

text \<open>\<open>filepath.Dir\<close>: all but the last element of the path, cleaned.\<close>

definition Dir :: "string \<Rightarrow> string" where
  "Dir p = Clean (rev (dropWhile (\<lambda>c. c \<noteq> Separator) (rev p)))"

text \<open>
  \<open>filepath.Rel\<close>, on the elements of the two cleaned paths: the common leading elements
  are removed, each base element left becomes \<open>..\<close>, and the rest of the target follows.
  A base or a target that cleans to \<open>.\<close> has no elements. It fails when one path is
  rooted and the other is not, and when the first base element left is \<open>..\<close>.
\<close>

definition pathElems :: "string \<Rightarrow> string list" where
  "pathElems p = filter (\<lambda>e. e \<noteq> []) (splitPath p)"

fun stripCommon :: "string list \<Rightarrow> string list \<Rightarrow> string list \<times> string list" where
  "stripCommon (b # bs) (t # ts) =
     (if b = t then stripCommon bs ts else (b # bs, t # ts))"
| "stripCommon bs ts = (bs, ts)"

definition Rel :: "string \<Rightarrow> string \<Rightarrow> string option" where
  "Rel basepath targpath =
     (let base = Clean basepath; targ = Clean targpath in
      if targ = base then Some ''.''
      else
        let base' = (if base = ''.'' then [] else base);
            targ' = (if targ = ''.'' then [] else targ)
        in
        if isRooted base' \<noteq> isRooted targ' then None
        else
          (case stripCommon (pathElems base') (pathElems targ') of
             (bs, ts) \<Rightarrow>
               if bs \<noteq> [] \<and> hd bs = ''..'' then None
               else Some (joinSep (map (\<lambda>_. ''..'') bs @ ts))))"

section \<open>Format detection\<close>

text \<open>\<open>DetectArchiveFormat\<close>: the cases of the switch, in the order of the source; the
  empty string is the answer for a name no case accepts.\<close>

definition DetectArchiveFormat :: "(string \<Rightarrow> string) \<Rightarrow> string \<Rightarrow> string" where
  "DetectArchiveFormat lowering filename =
     (let lower = ToLower lowering filename in
      if suffix ''.zip'' lower then ''.zip''
      else if suffix ''.tar.gz'' lower \<or> suffix ''.tgz'' lower then ''.tar.gz''
      else if suffix ''.tar.bz2'' lower \<or> suffix ''.tbz2'' lower then ''.tar.bz2''
      else if suffix ''.tar.xz'' lower \<or> suffix ''.txz'' lower then ''.tar.xz''
      else if suffix ''.tar.zst'' lower \<or> suffix ''.tzst'' lower then ''.tar.zst''
      else if suffix ''.tar.lz4'' lower then ''.tar.lz4''
      else if suffix ''.tar'' lower then ''.tar''
      else [])"

definition IsArchiveFile :: "(string \<Rightarrow> string) \<Rightarrow> string \<Rightarrow> bool" where
  "IsArchiveFile lowering filename = (DetectArchiveFormat lowering filename \<noteq> [])"

section \<open>The path check of extraction\<close>

text \<open>
  Both extraction loops build the target of an entry as
  \<open>filepath.Join(opts.Output, name)\<close> and go on only when
  \<open>strings.HasPrefix(filepath.Clean(targetPath), filepath.Clean(opts.Output))\<close>.
\<close>

definition targetPath :: "string \<Rightarrow> string \<Rightarrow> string" where
  "targetPath output name = Join [output, name]"

definition pathAccepted :: "string \<Rightarrow> string \<Rightarrow> bool" where
  "pathAccepted output name = prefix (Clean output) (Clean (targetPath output name))"

section \<open>Glob matching\<close>

text \<open>
  \<open>utf8.DecodeRuneInString\<close>: the first rune of a string and the number of bytes it
  takes. Bytes that are no UTF-8 encoding (a stray continuation byte, a sequence cut
  short, an overlong form, a surrogate, a value above \<open>U+10FFFF\<close>) give \<open>RuneError\<close> with
  the width 1; the empty string gives it with the width 0.
\<close>

definition RuneError :: nat where
  "RuneError = 0xFFFD"

definition byteOf :: "char \<Rightarrow> nat" where
  "byteOf c = of_char c"

definition DecodeRuneInString :: "string \<Rightarrow> nat \<times> nat" where
  "DecodeRuneInString s =
     (case s of
        [] \<Rightarrow> (RuneError, 0)
      | c0 # _ \<Rightarrow>
          let b0 = byteOf c0 in
          if b0 < 0x80 then (b0, 1)
          else if b0 < 0xC2 \<or> 0xF4 < b0 then (RuneError, 1)
          else
            let sz = (if b0 < 0xE0 then 2 else if b0 < 0xF0 then 3 else 4 :: nat);
                lo = (if b0 = 0xE0 then 0xA0 else if b0 = 0xF0 then 0x90 else 0x80 :: nat);
                hi = (if b0 = 0xED then 0x9F else if b0 = 0xF4 then 0x8F else 0xBF :: nat)
            in
            if length s < sz then (RuneError, 1)
            else
              let b1 = byteOf (s ! 1) in
              if b1 < lo \<or> hi < b1 then (RuneError, 1)
              else if sz = 2 then ((b0 mod 32) * 64 + b1 mod 64, 2)
              else
                let b2 = byteOf (s ! 2) in
                if b2 < 0x80 \<or> 0xBF < b2 then (RuneError, 1)
                else if sz = 3 then ((b0 mod 16) * 4096 + (b1 mod 64) * 64 + b2 mod 64, 3)
                else
                  let b3 = byteOf (s ! 3) in
                  if b3 < 0x80 \<or> 0xBF < b3 then (RuneError, 1)
                  else
                    ((b0 mod 8) * 262144 + (b1 mod 64) * 4096 + (b2 mod 64) * 64 + b3 mod 64,
                     4))"

lemma DecodeRuneInString_width:
  assumes "s \<noteq> []"
  shows "0 < snd (DecodeRuneInString s)" and "snd (DecodeRuneInString s) \<le> length s"
proof -
  from assms obtain c cs where s: "s = c # cs" by (cases s) auto
  show "0 < snd (DecodeRuneInString s)"
    unfolding s by (simp add: DecodeRuneInString_def Let_def)
  show "snd (DecodeRuneInString s) \<le> length s"
    unfolding DecodeRuneInString_def Let_def s
    by (auto simp: Suc_le_eq not_less numeral_2_eq_2 numeral_3_eq_3 less_Suc_eq_le
        split: if_splits)
qed

text \<open>
  \<open>filepath.Match\<close>. A pattern is a sequence of chunks, each a run of single-character
  operators (literals, \<open>?\<close>, classes in brackets, escapes with a backslash) that may
  follow a star. Literals are compared byte by byte; \<open>?\<close> and a class take one rune of
  the name. A malformed pattern is an error, which \<open>shouldExclude\<close> drops, keeping the
  answer \<open>false\<close>.
\<close>

datatype chunkResult = BadPattern | NoMatch | Matched string

text \<open>\<open>scanChunk\<close>: the stars in front are removed, and the chunk runs to the next
  star outside brackets.\<close>

fun scanBody :: "bool \<Rightarrow> string \<Rightarrow> string \<Rightarrow> string \<times> string" where
  "scanBody inrange acc [] = (rev acc, [])"
| "scanBody inrange acc [c] =
     (if c = CHR ''*'' \<and> \<not> inrange then (rev acc, [c]) else (rev (c # acc), []))"
| "scanBody inrange acc (c # d # ds) =
     (if c = CHR 0x5C then scanBody inrange (d # c # acc) ds
      else if c = CHR ''['' then scanBody True (c # acc) (d # ds)
      else if c = CHR '']'' then scanBody False (c # acc) (d # ds)
      else if c = CHR ''*'' \<and> \<not> inrange then (rev acc, c # d # ds)
      else scanBody inrange (c # acc) (d # ds))"

definition scanChunk :: "string \<Rightarrow> bool \<times> string \<times> string" where
  "scanChunk pattern =
     (let p = dropWhile (\<lambda>c. c = CHR ''*'') pattern in
      (p \<noteq> pattern, scanBody False [] p))"

text \<open>\<open>getEsc\<close>: one rune of a class, possibly escaped; it must be well encoded, and the
  class must go on after it.\<close>

definition getEsc :: "string \<Rightarrow> (nat \<times> string) option" where
  "getEsc chunk =
     (case chunk of
        [] \<Rightarrow> None
      | c # cs \<Rightarrow>
          if c = CHR ''-'' \<or> c = CHR '']'' then None
          else
            let chunk1 = (if c = CHR 0x5C then cs else chunk) in
            if chunk1 = [] then None
            else
              (case DecodeRuneInString chunk1 of
                 (r, n) \<Rightarrow>
                   if r = RuneError \<and> n = 1 then None
                   else if drop n chunk1 = [] then None
                   else Some (r, drop n chunk1)))"

lemma getEsc_shorter: "getEsc chunk = Some (r, rest) \<Longrightarrow> length rest < length chunk"
proof -
  assume a: "getEsc chunk = Some (r, rest)"
  then obtain c cs where ch: "chunk = c # cs" by (cases chunk) (auto simp: getEsc_def)
  let ?c1 = "if c = CHR 0x5C then cs else chunk"
  from a ch have ne: "?c1 \<noteq> []" by (auto simp: getEsc_def Let_def split: if_splits)
  from a ch ne have "rest = drop (snd (DecodeRuneInString ?c1)) ?c1"
    by (auto simp: getEsc_def Let_def split: if_splits prod.splits)
  moreover have "0 < snd (DecodeRuneInString ?c1)"
    using DecodeRuneInString_width(1) [OF ne] .
  moreover have "0 < length ?c1" using ne by simp
  ultimately have "length rest < length ?c1" by (simp only: length_drop diff_less)
  then show ?thesis using ch by (auto split: if_splits)
qed

text \<open>The ranges of a class, up to its closing bracket: whether the rune \<open>r\<close> is in one of
  them, and the chunk after the class. \<open>some\<close> says that a range has been read.\<close>

function parseRanges :: "bool \<Rightarrow> nat \<Rightarrow> bool \<Rightarrow> string \<Rightarrow> (bool \<times> string) option" where
  "parseRanges some r match chunk =
     (if some \<and> chunk \<noteq> [] \<and> hd chunk = CHR '']'' then Some (match, tl chunk)
      else
        (case getEsc chunk of
           None \<Rightarrow> None
         | Some (lo, c1) \<Rightarrow>
             if hd c1 = CHR ''-'' then
               (case getEsc (tl c1) of
                  None \<Rightarrow> None
                | Some (hi, c2) \<Rightarrow> parseRanges True r (match \<or> (lo \<le> r \<and> r \<le> hi)) c2)
             else parseRanges True r (match \<or> lo = r) c1))"
  by pat_completeness auto
termination
proof (relation "measure (\<lambda>(some, r, match, chunk). length chunk)", goal_cases)
  case 1
  show ?case by simp
next
  case (2 some r match chunk x2 lo c1 x2a hi c2)
  from 2(2,3) have "length c1 < length chunk"
    by (auto dest: getEsc_shorter)
  moreover from 2(5,6) have "length c2 < length (tl c1)"
    by (auto dest: getEsc_shorter)
  ultimately show ?case by simp
next
  case (3 some r match chunk x2 lo c1)
  from 3(2,3) have "length c1 < length chunk"
    by (auto dest: getEsc_shorter)
  then show ?case by simp
qed

declare parseRanges.simps [simp del]

lemma parseRanges_shorter:
  "parseRanges some r match chunk = Some (m, rest) \<Longrightarrow> length rest \<le> length chunk"
proof (induction some r match chunk rule: parseRanges.induct)
  case (1 some r match chunk)
  show ?case
  proof (cases "some \<and> chunk \<noteq> [] \<and> hd chunk = CHR '']''")
    case True
    with "1.prems" show ?thesis by (subst (asm) parseRanges.simps) auto
  next
    case False
    note F = False
    from "1.prems" F obtain lo c1 where g1: "getEsc chunk = Some (lo, c1)"
      by (subst (asm) parseRanges.simps) (auto split: option.splits)
    have l1: "length c1 < length chunk" using getEsc_shorter [OF g1] .
    show ?thesis
    proof (cases "hd c1 = CHR ''-''")
      case True
      from "1.prems" F g1 True obtain hi c2 where g2: "getEsc (tl c1) = Some (hi, c2)"
        and p: "parseRanges True r (match \<or> (lo \<le> r \<and> r \<le> hi)) c2 = Some (m, rest)"
        by (subst (asm) parseRanges.simps) (auto split: option.splits)
      have "length rest \<le> length c2"
        using "1.IH"(1) [OF F g1 refl True g2 refl p] .
      moreover have "length c2 < length (tl c1)" using getEsc_shorter [OF g2] .
      ultimately show ?thesis using l1 by simp
    next
      case False
      from "1.prems" F g1 False have p: "parseRanges True r (match \<or> lo = r) c1 = Some (m, rest)"
        by (subst (asm) parseRanges.simps) (auto split: option.splits)
      have "length rest \<le> length c1"
        using "1.IH"(2) [OF F g1 refl False p] .
      then show ?thesis using l1 by simp
    qed
  qed
qed

text \<open>
  \<open>matchChunk\<close>: whether the chunk matches the beginning of \<open>s\<close>, and the rest of \<open>s\<close>
  then. After the match has failed the chunk is still read to its end, to report a
  malformed pattern, and \<open>s\<close> is read no more.
\<close>

function matchChunk :: "bool \<Rightarrow> string \<Rightarrow> string \<Rightarrow> chunkResult" where
  "matchChunk failed [] s = (if failed then NoMatch else Matched s)"
| "matchChunk failed (c # cs) s =
     (let failed1 = (failed \<or> s = []) in
      if c = CHR ''['' then
        (let negated = (cs \<noteq> [] \<and> hd cs = CHR ''^'');
             r = (if failed1 then 0 else fst (DecodeRuneInString s));
             s1 = (if failed1 then s else drop (snd (DecodeRuneInString s)) s)
         in case parseRanges False r False (if negated then tl cs else cs) of
              None \<Rightarrow> BadPattern
            | Some (match, rest) \<Rightarrow> matchChunk (failed1 \<or> match = negated) rest s1)
      else if c = CHR ''?'' then
        matchChunk (failed1 \<or> hd s = Separator) cs
          (if failed1 then s else drop (snd (DecodeRuneInString s)) s)
      else if c = CHR 0x5C then
        (case cs of
           [] \<Rightarrow> BadPattern
         | d # ds \<Rightarrow> matchChunk (failed1 \<or> d \<noteq> hd s) ds (if failed1 then s else tl s))
      else matchChunk (failed1 \<or> c \<noteq> hd s) cs (if failed1 then s else tl s))"
  by pat_completeness auto
termination
proof (relation "measure (\<lambda>(failed, chunk, s). length chunk)", goal_cases)
  case prems: (2 failed c cs s failed1 negated r s1 x2 match rest)
  then have "parseRanges False r False (if negated then tl cs else cs) = Some (match, rest)"
    by simp
  then have "length rest \<le> length (if negated then tl cs else cs)"
    by (rule parseRanges_shorter)
  then show ?case by (auto split: if_splits)
qed auto

text \<open>The search after a star: the chunk is tried after each byte of the name, up to
  the first separator. \<open>final\<close> says that no pattern is left after the chunk, so that the
  match must use up the name.\<close>

fun starSearch :: "string \<Rightarrow> bool \<Rightarrow> string \<Rightarrow> chunkResult" where
  "starSearch chunk final [] = NoMatch"
| "starSearch chunk final (c # cs) =
     (if c = Separator then NoMatch
      else
        (case matchChunk False chunk cs of
           Matched t \<Rightarrow> if final \<and> t \<noteq> [] then starSearch chunk final cs else Matched t
         | BadPattern \<Rightarrow> BadPattern
         | NoMatch \<Rightarrow> starSearch chunk final cs))"

lemma scanBody_shorter: "length (snd (scanBody inrange acc p)) \<le> length p"
  by (induction inrange acc p rule: scanBody.induct) (auto simp: le_Suc_eq)

lemma scanBody_progress:
  assumes "p \<noteq> []" and "hd p \<noteq> CHR ''*''"
  shows "length (snd (scanBody inrange acc p)) < length p"
proof (cases p)
  case Nil
  with assms show ?thesis by simp
next
  case (Cons c cs)
  note p = Cons
  show ?thesis
  proof (cases cs)
    case Nil
    with p assms show ?thesis by simp
  next
    case (Cons d ds)
    have "length (snd (scanBody i a ds)) < Suc (Suc (length ds))" for i a
      using scanBody_shorter [of i a ds] by simp
    moreover have "length (snd (scanBody i a (d # ds))) < Suc (Suc (length ds))" for i a
      using scanBody_shorter [of i a "d # ds"] by simp
    ultimately show ?thesis using p Cons assms by simp
  qed
qed

lemma scanChunk_shorter:
  assumes "scanChunk pattern = (star, chunk, rest)" and "pattern \<noteq> []"
  shows "length rest < length pattern"
proof -
  let ?p = "dropWhile (\<lambda>c. c = CHR ''*'') pattern"
  from assms(1) have sb: "snd (scanBody False [] ?p) = rest"
    by (simp add: scanChunk_def Let_def)
  show ?thesis
  proof (cases "?p = []")
    case True
    with sb assms(2) show ?thesis by auto
  next
    case False
    then have "hd ?p \<noteq> CHR ''*''" using hd_dropWhile by blast
    from scanBody_progress [OF False this] sb have "length rest < length ?p" by blast
    also have "\<dots> \<le> length pattern" by (rule length_dropWhile_le)
    finally show ?thesis .
  qed
qed

text \<open>Before \<open>Match\<close> answers \<open>false\<close> with no error, it reads the chunks of the pattern
  that are left and reports a malformed one.\<close>

function wellFormed :: "string \<Rightarrow> bool" where
  "wellFormed pattern =
     (if pattern = [] then True
      else
        (case scanChunk pattern of
           (star, chunk, rest) \<Rightarrow>
             if matchChunk False chunk [] = BadPattern then False else wellFormed rest))"
  by pat_completeness auto
termination
  by (relation "measure length") (auto dest: scanChunk_shorter [OF sym])

declare wellFormed.simps [simp del]

text \<open>\<open>Match\<close>: \<open>None\<close> is the error \<open>ErrBadPattern\<close>.\<close>

function Match :: "string \<Rightarrow> string \<Rightarrow> bool option" where
  "Match pattern name =
     (if pattern = [] then Some (name = [])
      else
        (case scanChunk pattern of
           (star, chunk, rest) \<Rightarrow>
             if star \<and> chunk = [] then Some (Separator \<notin> set name)
             else
               (case matchChunk False chunk name of
                  Matched t \<Rightarrow>
                    if t = [] \<or> rest \<noteq> [] then Match rest t
                    else if star then
                      (case starSearch chunk (rest = []) name of
                         Matched t' \<Rightarrow> Match rest t'
                       | BadPattern \<Rightarrow> None
                       | NoMatch \<Rightarrow> if wellFormed rest then Some False else None)
                    else if wellFormed rest then Some False else None
                | BadPattern \<Rightarrow> None
                | NoMatch \<Rightarrow>
                    if star then
                      (case starSearch chunk (rest = []) name of
                         Matched t' \<Rightarrow> Match rest t'
                       | BadPattern \<Rightarrow> None
                       | NoMatch \<Rightarrow> if wellFormed rest then Some False else None)
                    else if wellFormed rest then Some False else None)))"
  by pat_completeness auto
termination
  by (relation "measure (\<lambda>(pattern, name). length pattern)")
    (auto dest: scanChunk_shorter [OF sym])

declare Match.simps [simp del]

section \<open>Exclusion\<close>

text \<open>\<open>shouldExclude\<close>: the loop over the patterns, with \<open>name\<close> the base of the path.
  The error of \<open>filepath.Match\<close> is dropped: \<open>matched\<close> is false then.\<close>

fun excludeLoop :: "string \<Rightarrow> string \<Rightarrow> string list \<Rightarrow> bool" where
  "excludeLoop name path [] = False"
| "excludeLoop name path (pattern # rest) =
     (if CHR ''*'' \<in> set pattern then
        (if Match pattern name = Some True then True else excludeLoop name path rest)
      else if name = pattern then True
      else if sublist ([Separator] @ pattern @ [Separator]) path
              \<or> suffix ([Separator] @ pattern) path then True
      else excludeLoop name path rest)"

definition shouldExclude :: "string \<Rightarrow> string list \<Rightarrow> bool" where
  "shouldExclude path excludes = excludeLoop (Base path) path excludes"

section \<open>The file system\<close>

text \<open>
  The files the archiver reads and writes are a tree of directories, regular files and
  symbolic links. The entries of a directory are kept in the order \<open>os.ReadDir\<close> lists
  them, by name. Permission bits, owners, times, hard links, devices and the limits on
  the length of a name are left out.
\<close>

datatype node = FileNode string | LinkNode string | DirNode "(string \<times> node) list"

datatype oserr = ENOENT | ENOTDIR | EISDIR | EEXIST | ELOOP | EINVAL

text \<open>\<open>cwd\<close> is the working directory, as \<open>os.Getwd\<close> gives it: a rooted path.\<close>

record fs =
  root :: node
  cwd :: string

definition isDir :: "node \<Rightarrow> bool" where
  "isDir n = (case n of DirNode _ \<Rightarrow> True | _ \<Rightarrow> False)"

text \<open>A place in the tree is the list of the names that lead to it from the root, through
  directories only.\<close>

fun lookupNode :: "node \<Rightarrow> string list \<Rightarrow> oserr + node" where
  "lookupNode n [] = Inr n"
| "lookupNode (DirNode es) (e # rest) =
     (case map_of es e of None \<Rightarrow> Inl ENOENT | Some c \<Rightarrow> lookupNode c rest)"
| "lookupNode (FileNode _) (e # rest) = Inl ENOTDIR"
| "lookupNode (LinkNode _) (e # rest) = Inl ENOENT"

text \<open>What the directory at a place holds under a name; \<open>NoDir\<close> when there is no
  directory at the place.\<close>

datatype kind = NoDir | Missing | IsFile | IsDir | IsLink string

fun kindAt :: "node \<Rightarrow> string list \<Rightarrow> string \<Rightarrow> kind" where
  "kindAt (DirNode es) [] e =
     (case map_of es e of
        None \<Rightarrow> Missing
      | Some (FileNode _) \<Rightarrow> IsFile
      | Some (DirNode _) \<Rightarrow> IsDir
      | Some (LinkNode t) \<Rightarrow> IsLink t)"
| "kindAt (DirNode es) (d # ds) e =
     (case map_of es d of None \<Rightarrow> NoDir | Some c \<Rightarrow> kindAt c ds e)"
| "kindAt (FileNode _) ds e = NoDir"
| "kindAt (LinkNode _) ds e = NoDir"

text \<open>
  The walk along a path that the system makes for every call with a path, as Linux makes
  it. \<open>cur\<close> is the place of the directory reached so far, and the list holds the elements
  of the path still to walk. An empty element and \<open>.\<close> stay in the directory, \<open>..\<close> goes
  to the directory above (the root is above itself), a name goes into the directory or
  through the link of that name. A link is followed from the directory that holds it, or
  from the root when its target is rooted; the last element of the path is followed only
  when \<open>follow\<close> is set or elements (a trailing separator) come after it; following the
  41st link of one walk is the error \<open>ELOOP\<close>. The walk ends at a place that is there
  (\<open>Here\<close>), or at a name that its directory does not hold, with nothing or only
  separators after it (\<open>New\<close>, with the flag saying that a separator came after it).
\<close>

datatype place = Here "string list" | New "string list" bool

function resolve :: "node \<Rightarrow> nat \<Rightarrow> bool \<Rightarrow> string list \<Rightarrow> string list \<Rightarrow> oserr + place" where
  "resolve r fuel follow cur [] = Inr (Here cur)"
| "resolve r fuel follow cur (e # rest) =
     (if e = [] \<or> e = ''.'' then resolve r fuel follow cur rest
      else if e = ''..'' then resolve r fuel follow (butlast cur) rest
      else
        (case kindAt r cur e of
           NoDir \<Rightarrow> Inl ENOTDIR
         | Missing \<Rightarrow>
             if list_all (\<lambda>x. x = []) rest then Inr (New (cur @ [e]) (rest \<noteq> []))
             else Inl ENOENT
         | IsDir \<Rightarrow> resolve r fuel follow (cur @ [e]) rest
         | IsFile \<Rightarrow> if rest = [] then Inr (Here (cur @ [e])) else Inl ENOTDIR
         | IsLink t \<Rightarrow>
             if rest = [] \<and> \<not> follow then Inr (Here (cur @ [e]))
             else if fuel = 0 then Inl ELOOP
             else if t = [] then Inl ENOENT
             else
               resolve r (fuel - 1) follow (if isRooted t then [] else cur)
                 (splitPath t @ rest)))"
  by pat_completeness auto
termination
  by (relation "measures [\<lambda>(r, fuel, follow, cur, es). fuel,
                          \<lambda>(r, fuel, follow, cur, es). length es]") auto

text \<open>The walk from a path as a call receives it: the empty path is no file, a path
  with a zero byte is refused by the \<open>syscall\<close> package, and a path that is not rooted
  starts in the working directory.\<close>

definition namei :: "fs \<Rightarrow> bool \<Rightarrow> string \<Rightarrow> oserr + place" where
  "namei w follow p =
     (if p = [] then Inl ENOENT
      else if CHR 0x00 \<in> set p then Inl EINVAL
      else if \<not> isDir (root w) then Inl ENOTDIR
      else
        resolve (root w) 40 follow []
          (splitPath (if isRooted p then p else cwd w @ [Separator] @ p)))"

definition statAt :: "fs \<Rightarrow> bool \<Rightarrow> string \<Rightarrow> oserr + node" where
  "statAt w follow p =
     (case namei w follow p of
        Inl e \<Rightarrow> Inl e
      | Inr (New loc slash) \<Rightarrow> Inl ENOENT
      | Inr (Here loc) \<Rightarrow> lookupNode (root w) loc)"

text \<open>\<open>os.Lstat\<close> does not follow a link that the path ends in, \<open>os.Stat\<close> does.\<close>

definition os_Lstat :: "fs \<Rightarrow> string \<Rightarrow> oserr + node" where
  "os_Lstat w p = statAt w False p"

definition os_Stat :: "fs \<Rightarrow> string \<Rightarrow> oserr + node" where
  "os_Stat w p = statAt w True p"

text \<open>The size \<open>FileInfo.Size\<close> reports: the length of a file or of the target of a
  link; the size of a directory depends on the system and is not modelled.\<close>

definition nodeSize :: "node \<Rightarrow> int" where
  "nodeSize n =
     (case n of FileNode c \<Rightarrow> int (length c) | LinkNode t \<Rightarrow> int (length t) | DirNode _ \<Rightarrow> 0)"

text \<open>\<open>os.Open\<close> and the read of the whole file that \<open>io.Copy\<close> makes: a directory can
  be opened, and reading it fails.\<close>

definition os_ReadFile :: "fs \<Rightarrow> string \<Rightarrow> oserr + string" where
  "os_ReadFile w p =
     (case os_Stat w p of
        Inl e \<Rightarrow> Inl e
      | Inr (FileNode c) \<Rightarrow> Inr c
      | Inr _ \<Rightarrow> Inl EISDIR)"

text \<open>What the reader of an archive has in hand once \<open>os.Open\<close> has succeeded: the bytes
  of a file, or a directory, of which every read fails.\<close>

datatype input = Bytes string | Unreadable

definition os_Open :: "fs \<Rightarrow> string \<Rightarrow> oserr + input" where
  "os_Open w p =
     (case os_Stat w p of
        Inl e \<Rightarrow> Inl e
      | Inr (FileNode c) \<Rightarrow> Inr (Bytes c)
      | Inr _ \<Rightarrow> Inr Unreadable)"

text \<open>\<open>os.ReadDir\<close>: the entries of a directory, by name.\<close>

definition os_ReadDir :: "fs \<Rightarrow> string \<Rightarrow> oserr + (string \<times> node) list" where
  "os_ReadDir w p =
     (case os_Stat w p of
        Inl e \<Rightarrow> Inl e
      | Inr (DirNode es) \<Rightarrow> Inr es
      | Inr _ \<Rightarrow> Inl ENOTDIR)"

fun putEntry :: "string \<Rightarrow> node \<Rightarrow> (string \<times> node) list \<Rightarrow> (string \<times> node) list" where
  "putEntry k v [] = [(k, v)]"
| "putEntry k v ((k', v') # es) =
     (if k = k' then (k, v) # es
      else if k < k' then (k, v) # (k', v') # es
      else (k', v') # putEntry k v es)"

text \<open>The tree with the node \<open>v\<close> at a place whose directory is there.\<close>

fun putNode :: "node \<Rightarrow> string list \<Rightarrow> node \<Rightarrow> node" where
  "putNode (DirNode es) [e] v = DirNode (putEntry e v es)"
| "putNode (DirNode es) (e # e' # rest) v =
     (case map_of es e of
        None \<Rightarrow> DirNode es
      | Some c \<Rightarrow> DirNode (putEntry e (putNode c (e' # rest) v) es))"
| "putNode n ps v = n"

text \<open>A path without the separators at its end; a path of separators only is the root.\<close>

definition stripSlashes :: "string \<Rightarrow> string" where
  "stripSlashes p =
     (let q = rev (dropWhile (\<lambda>c. c = Separator) (rev p)) in
      if q = [] \<and> p \<noteq> [] then [Separator] else q)"

definition endsWithSlash :: "string \<Rightarrow> bool" where
  "endsWithSlash p = (p \<noteq> [] \<and> last p = Separator)"

text \<open>
  \<open>os.OpenFile\<close> with \<open>O_WRONLY|O_CREATE|O_TRUNC\<close> (and \<open>os.Create\<close>): the place of the
  file that is opened. A link the path ends in is followed, also to a file that is not
  there yet; the directory of the file must be there, and the file must not be a
  directory.
\<close>

definition creatPlace :: "fs \<Rightarrow> string \<Rightarrow> oserr + string list" where
  "creatPlace w p =
     (if endsWithSlash p then
        (case namei w True (stripSlashes p) of Inl e \<Rightarrow> Inl e | Inr _ \<Rightarrow> Inl EISDIR)
      else
        (case namei w True p of
           Inl e \<Rightarrow> Inl e
         | Inr (New loc slash) \<Rightarrow> if slash then Inl EISDIR else Inr loc
         | Inr (Here loc) \<Rightarrow>
             (case lookupNode (root w) loc of
                Inr (FileNode _) \<Rightarrow> Inr loc
              | _ \<Rightarrow> Inl EISDIR)))"

text \<open>The file is created or truncated, and holds the bytes given once it is closed.\<close>

definition os_WriteFile :: "fs \<Rightarrow> string \<Rightarrow> string \<Rightarrow> oserr + fs" where
  "os_WriteFile w p content =
     (case creatPlace w p of
        Inl e \<Rightarrow> Inl e
      | Inr loc \<Rightarrow> Inr (w\<lparr>root := putNode (root w) loc (FileNode content)\<rparr>))"

text \<open>\<open>os.Mkdir\<close>: the directory above must be there and the name must be free; a link of
  that name is not followed, and separators at the end of the path do not count.\<close>

definition os_Mkdir :: "fs \<Rightarrow> string \<Rightarrow> oserr + fs" where
  "os_Mkdir w p =
     (case namei w False (stripSlashes p) of
        Inl e \<Rightarrow> Inl e
      | Inr (Here loc) \<Rightarrow> Inl EEXIST
      | Inr (New loc slash) \<Rightarrow> Inr (w\<lparr>root := putNode (root w) loc (DirNode [])\<rparr>))"

text \<open>
  \<open>os.MkdirAll\<close>: a path that is a directory is left alone, and a path that is anything
  else is an error; otherwise the path above is made in the same way, then the
  directory itself, and an error of that last step is passed over when the path is a
  directory after all.
\<close>

definition parentOf :: "string \<Rightarrow> string" where
  "parentOf path =
     rev (dropWhile (\<lambda>c. c \<noteq> Separator) (dropWhile (\<lambda>c. c = Separator) (rev path)))"

lemma parentOf_shorter: "parentOf path \<noteq> [] \<Longrightarrow> length (parentOf path) < length path"
proof -
  let ?q = "dropWhile (\<lambda>c. c = Separator) (rev path)"
  assume a: "parentOf path \<noteq> []"
  have "parentOf path = rev (dropWhile (\<lambda>c. c \<noteq> Separator) ?q)" by (simp only: parentOf_def)
  with a have "dropWhile (\<lambda>c. c \<noteq> Separator) ?q \<noteq> []" by (simp only: rev_is_Nil_conv not_False_eq_True)
  then have q: "?q \<noteq> []" by (metis dropWhile.simps(1))
  then have "hd ?q \<noteq> Separator" using hd_dropWhile [of "\<lambda>c. c = Separator" "rev path"] by simp
  with q have "dropWhile (\<lambda>c. c \<noteq> Separator) ?q = dropWhile (\<lambda>c. c \<noteq> Separator) (tl ?q)"
    by (cases ?q) auto
  then have "length (parentOf path) = length (dropWhile (\<lambda>c. c \<noteq> Separator) (tl ?q))"
    by (simp only: parentOf_def length_rev)
  also have "\<dots> \<le> length (tl ?q)" by (rule length_dropWhile_le)
  finally have "length (parentOf path) \<le> length (tl ?q)" .
  also have "\<dots> < length ?q" using q by (cases ?q) auto
  also have "\<dots> \<le> length path" using length_dropWhile_le [of "\<lambda>c. c = Separator" "rev path"] by simp
  finally show ?thesis .
qed

function os_MkdirAll :: "fs \<Rightarrow> string \<Rightarrow> oserr + fs" where
  "os_MkdirAll w path =
     (case os_Stat w path of
        Inr dir \<Rightarrow> if isDir dir then Inr w else Inl ENOTDIR
      | Inl _ \<Rightarrow>
          (case (if parentOf path \<noteq> [] then os_MkdirAll w (parentOf path) else Inr w) of
             Inl e \<Rightarrow> Inl e
           | Inr w1 \<Rightarrow>
               (case os_Mkdir w1 path of
                  Inr w2 \<Rightarrow> Inr w2
                | Inl e \<Rightarrow>
                    (case os_Lstat w1 path of
                       Inl _ \<Rightarrow> Inl e
                     | Inr d \<Rightarrow> if isDir d then Inr w1 else Inl e))))"
  by pat_completeness auto
termination
  by (relation "measure (\<lambda>(w, path). length path)") (auto dest: parentOf_shorter)

declare os_MkdirAll.simps [simp del]

text \<open>\<open>os.Symlink\<close>: the directory of the link must be there and the name must be free.\<close>

definition os_Symlink :: "fs \<Rightarrow> string \<Rightarrow> string \<Rightarrow> oserr + fs" where
  "os_Symlink w target p =
     (if CHR 0x00 \<in> set target then Inl EINVAL
      else
        (case namei w False (stripSlashes p) of
           Inl e \<Rightarrow> Inl e
         | Inr (Here loc) \<Rightarrow> Inl EEXIST
         | Inr (New loc slash) \<Rightarrow>
             if endsWithSlash p \<or> target = [] then Inl ENOENT
             else Inr (w\<lparr>root := putNode (root w) loc (LinkNode target)\<rparr>)))"

section \<open>Collecting the files\<close>

text \<open>
  \<open>collectFiles\<close> walks the source with \<open>filepath.WalkDir\<close>. The state of the walk is
  what the closure of the source updates: the files, their total size and the count of
  exclusions. The closure answers \<open>nil\<close>, \<open>filepath.SkipDir\<close> or an error.
\<close>

record collected =
  files :: "string list"
  totalSize :: int
  excludedCount :: int

datatype walkAnswer = WalkNil | WalkSkipDir | WalkErr oserr

text \<open>The test of the closure: the path relative to the directory of the source (the path
  itself when \<open>filepath.Rel\<close> fails) or the path as the walk gives it is excluded.\<close>

definition walkExcluded :: "string \<Rightarrow> string list \<Rightarrow> string \<Rightarrow> bool" where
  "walkExcluded source excludes path =
     (let relPath = (case Rel (Dir source) path of None \<Rightarrow> path | Some r \<Rightarrow> r) in
      shouldExclude relPath excludes \<or> shouldExclude path excludes)"

text \<open>The closure, called with no error on the entry \<open>d\<close> (a link is an entry that is no
  directory, with the size of its target path).\<close>

definition visit :: "string \<Rightarrow> string list \<Rightarrow> string \<Rightarrow> node \<Rightarrow> collected \<Rightarrow> walkAnswer \<times> collected" where
  "visit source excludes path d st =
     (if walkExcluded source excludes path then
        (if isDir d then (WalkSkipDir, st\<lparr>excludedCount := excludedCount st + 1\<rparr>)
         else (WalkNil, st\<lparr>excludedCount := excludedCount st + 1\<rparr>))
      else if \<not> isDir d then
        (WalkNil, st\<lparr>files := files st @ [path], totalSize := totalSize st + nodeSize d\<rparr>)
      else (WalkNil, st))"

text \<open>
  \<open>walkDir\<close> of \<open>path/filepath\<close>, below a path that names the directory it was listed
  in: the closure is called on the node; a directory the closure does not skip is read,
  and its entries are walked in turn. \<open>SkipDir\<close> from an entry ends the walk of the
  directory that holds it. Links are not followed.
\<close>

fun walkDir :: "string \<Rightarrow> string list \<Rightarrow> string \<Rightarrow> node \<Rightarrow> collected \<Rightarrow> walkAnswer \<times> collected"
  and walkEntries :: "string \<Rightarrow> string list \<Rightarrow> string \<Rightarrow> (string \<times> node) list \<Rightarrow> collected \<Rightarrow> walkAnswer \<times> collected"
where
  "walkDir source excludes path (FileNode c) st = visit source excludes path (FileNode c) st"
| "walkDir source excludes path (LinkNode t) st = visit source excludes path (LinkNode t) st"
| "walkDir source excludes path (DirNode es) st =
     (case visit source excludes path (DirNode es) st of
        (WalkNil, st1) \<Rightarrow> walkEntries source excludes path es st1
      | (WalkSkipDir, st1) \<Rightarrow> (WalkNil, st1)
      | (WalkErr e, st1) \<Rightarrow> (WalkErr e, st1))"
| "walkEntries source excludes path [] st = (WalkNil, st)"
| "walkEntries source excludes path ((name, d1) # rest) st =
     (case walkDir source excludes (Join [path, name]) d1 st of
        (WalkNil, st1) \<Rightarrow> walkEntries source excludes path rest st1
      | (WalkSkipDir, st1) \<Rightarrow> (WalkNil, st1)
      | (WalkErr e, st1) \<Rightarrow> (WalkErr e, st1))"

text \<open>
  The entries of the root of the walk. The path of an entry is the root joined with its
  name, which \<open>filepath.Join\<close> cleans: when the root is written with \<open>..\<close> after a link,
  that path may name another directory than the one the entry was listed in, and
  \<open>os.ReadDir\<close> reads the directory the path names. An error of \<open>os.ReadDir\<close> goes to the
  closure, which returns it. Below, a path is the path of its directory followed by a
  name, and names the entry itself.
\<close>

definition walkChild :: "fs \<Rightarrow> string \<Rightarrow> string list \<Rightarrow> string \<Rightarrow> node \<Rightarrow> collected \<Rightarrow> walkAnswer \<times> collected" where
  "walkChild w source excludes path1 d1 st =
     (case visit source excludes path1 d1 st of
        (WalkNil, st1) \<Rightarrow>
          if isDir d1 then
            (case os_ReadDir w path1 of
               Inl e \<Rightarrow> (WalkErr e, st1)
             | Inr es1 \<Rightarrow> walkEntries source excludes path1 es1 st1)
          else (WalkNil, st1)
      | (WalkSkipDir, st1) \<Rightarrow> (if isDir d1 then WalkNil else WalkSkipDir, st1)
      | (WalkErr e, st1) \<Rightarrow> (WalkErr e, st1))"

fun walkTop :: "fs \<Rightarrow> string \<Rightarrow> string list \<Rightarrow> string \<Rightarrow> (string \<times> node) list \<Rightarrow> collected \<Rightarrow> walkAnswer \<times> collected" where
  "walkTop w source excludes root1 [] st = (WalkNil, st)"
| "walkTop w source excludes root1 ((name, d1) # rest) st =
     (case walkChild w source excludes (Join [root1, name]) d1 st of
        (WalkNil, st1) \<Rightarrow> walkTop w source excludes root1 rest st1
      | (WalkSkipDir, st1) \<Rightarrow> (WalkNil, st1)
      | (WalkErr e, st1) \<Rightarrow> (WalkErr e, st1))"

text \<open>\<open>filepath.WalkDir\<close>: the root is looked at with \<open>os.Lstat\<close>; an error of that call
  goes to the closure, which returns it.\<close>

definition WalkDir :: "fs \<Rightarrow> string \<Rightarrow> string list \<Rightarrow> collected \<Rightarrow> oserr option \<times> collected" where
  "WalkDir w source excludes st =
     (case os_Lstat w source of
        Inl e \<Rightarrow> (Some e, st)
      | Inr d \<Rightarrow>
          (case visit source excludes source d st of
             (WalkErr e, st1) \<Rightarrow> (Some e, st1)
           | (WalkSkipDir, st1) \<Rightarrow> (None, st1)
           | (WalkNil, st1) \<Rightarrow>
               (case d of
                  DirNode es \<Rightarrow>
                    (case walkTop w source excludes source es st1 of
                       (WalkErr e, st2) \<Rightarrow> (Some e, st2)
                     | (_, st2) \<Rightarrow> (None, st2))
                | _ \<Rightarrow> (None, st1))))"

text \<open>\<open>collectFiles\<close>: a source that is a single file is the answer by itself, with no
  exclusion applied.\<close>

definition collectFiles :: "fs \<Rightarrow> string \<Rightarrow> string list \<Rightarrow> oserr + collected" where
  "collectFiles w source excludes =
     (case os_Stat w source of
        Inl e \<Rightarrow> Inl e
      | Inr sourceInfo \<Rightarrow>
          if \<not> isDir sourceInfo then
            Inr \<lparr>files = [source], totalSize = nodeSize sourceInfo, excludedCount = 0\<rparr>
          else
            (case WalkDir w source excludes \<lparr>files = [], totalSize = 0, excludedCount = 0\<rparr> of
               (Some e, st) \<Rightarrow> Inl e
             | (None, st) \<Rightarrow> Inr st))"

section \<open>Requests, statistics and what an operation leaves behind\<close>

text \<open>
  \<open>CompressOptions\<close> and \<open>ExtractOptions\<close> share the source, the output and the two
  callbacks; \<open>CompressStats\<close> and \<open>ExtractStats\<close> share the counts. A callback is
  modelled by whether it is set: a call of it is recorded, with its arguments, in the
  trace of the operation. Go's \<open>int\<close> and \<open>int64\<close> are integers (no count or size of a
  file system reaches their bounds), and a \<open>float64\<close> is the rational number it stands
  for.
\<close>

record Options =
  Source :: string
  Output :: string
  OnProgress :: bool
  OnStats :: bool

record CompressOptions = Options +
  Format :: string
  Excludes :: "string list"

type_synonym ExtractOptions = Options

record Stats =
  TotalFiles :: int
  ProcessedFiles :: int
  TotalSize :: int
  CurrentFile :: string

record CompressStats = Stats +
  CompressedSize :: int
  ExcludedFiles :: int
  CompressionRate :: rat

record ExtractStats = Stats +
  ExtractedSize :: int

text \<open>The headers of the entries: what \<open>zip.FileInfoHeader\<close> and \<open>tar.FileInfoHeader\<close>
  fill in for a file, and what the readers give back.\<close>

datatype typeflag = TypeReg | TypeDir | TypeSymlink | TypeOther

record zipHeader =
  zipName :: string
  Method :: nat
  UncompressedSize64 :: int

record tarHeader =
  tarName :: string
  Typeflag :: typeflag
  Size :: int
  Linkname :: string

definition Store :: nat where
  "Store = 0"

definition Deflate :: nat where
  "Deflate = 8"

text \<open>An entry as it is handed to the archive writer: its header and the bytes copied
  after it.\<close>

datatype entry = ZipEntry zipHeader string | TarEntry tarHeader string

text \<open>What an archive reader gives: the files of a ZIP archive, known when it is opened,
  and the items of a TAR stream, read one by one; \<open>TarBad\<close> is the error of
  \<open>tarReader.Next\<close>, and the end of the list is \<open>io.EOF\<close>.\<close>

record zipFile =
  zfName :: string
  zfIsDir :: bool
  zfUncompressedSize64 :: int
  zfOpenFails :: bool
  zfData :: string
  zfCopyFails :: bool

datatype tarItem = TarNext tarHeader string bool | TarBad

text \<open>
  The byte formats are the work of the libraries (\<open>archive/zip\<close>, \<open>archive/tar\<close>, pgzip,
  bzip2, xz, zstd, lz4), and every property below holds whatever they are:
  \<^item> \<open>encode fmt es\<close>: the bytes of the output once the writers of the format are closed
    after the entries \<open>es\<close>;
  \<^item> \<open>newWriterFails fmt\<close>: the constructor of the compressing writer returns an error;
  \<^item> \<open>writeFails fmt e\<close>: writing the header or the bytes of the entry returns an error;
  \<^item> \<open>zipOpen inp\<close>: the files \<open>zip.OpenReader\<close> finds in what was opened, or its error;
  \<^item> \<open>newReaderFails fmt inp\<close>: the constructor of the decompressing reader returns
    an error;
  \<^item> \<open>tarItems fmt inp\<close>: what the TAR reader yields on the decompressed stream;
  \<^item> \<open>lowerRunes\<close>: \<open>unicode.ToLower\<close> mapped over the runes of a string.
  What an archive holds of an entry whose writing failed is left out, and an archive is
  read as it was when it was opened.
\<close>

record codecs =
  encode :: "string \<Rightarrow> entry list \<Rightarrow> string"
  newWriterFails :: "string \<Rightarrow> bool"
  writeFails :: "string \<Rightarrow> entry \<Rightarrow> bool"
  zipOpen :: "input \<Rightarrow> zipFile list option"
  newReaderFails :: "string \<Rightarrow> input \<Rightarrow> bool"
  tarItems :: "string \<Rightarrow> input \<Rightarrow> tarItem list"
  lowerRunes :: "string \<Rightarrow> string"

text \<open>The errors, one for each \<open>return\<close> of an error in the source.\<close>

datatype error =
    SourceNotFound oserr
  | CollectFailed oserr
  | NoFiles
  | UnsupportedFormat string
  | Cancelled
  | CreateOutputFailed oserr
  | NewWriterFailed
  | AddFileFailed string
  | MkdirOutputFailed oserr
  | OpenArchiveFailed
  | NewReaderFailed
  | ReadHeaderFailed
  | PathTraversal string
  | MkdirFailed string oserr
  | MkParentFailed oserr
  | ExtractFileFailed string
  | CreateFileFailed string oserr
  | WriteFileFailed string

text \<open>
  The trace of an operation, in the order of the run: the calls of the callbacks, each
  entry handed whole to the archive writer, and each entry of an archive put in place
  in the output directory.
\<close>

datatype event =
    Progress int int string
  | CompressSnapshot CompressStats
  | ExtractSnapshot ExtractStats
  | Wrote entry
  | Materialized string

text \<open>The context: \<open>ctx k\<close> says that \<open>ctx.Done()\<close> is closed when the loop of the
  operation looks at it for the \<open>k\<close>-th time, counting from 0.\<close>

type_synonym Context = "nat \<Rightarrow> bool"

section \<open>The arithmetic of float64\<close>

text \<open>
  A finite \<open>float64\<close> is a rational number \<open>m * 2 ^ e\<close> with a significand \<open>m\<close> of at most
  53 bits. The conversion of an integer, the division and the multiplication give the
  exact result rounded to the nearest such number, and to the one with the even
  significand when two are equally near (IEEE 754, which Go follows). The exponent is
  not bounded here: sizes of files are below \<open>2 ^ 63\<close>, so that the numbers the
  compression rate is made of are 0 or lie between \<open>2 ^ -63\<close> and \<open>2 ^ 70\<close>, inside the
  range of the normal numbers of \<open>float64\<close>.
\<close>

text \<open>The number of binary digits of a positive integer.\<close>

function bitLength :: "int \<Rightarrow> int" where
  "bitLength n = (if n \<le> 0 then 0 else 1 + bitLength (n div 2))"
  by pat_completeness auto
termination
  by (relation "measure nat") auto

declare bitLength.simps [simp del]

definition pow2 :: "int \<Rightarrow> rat" where
  "pow2 e = (if 0 \<le> e then 2 ^ nat e else 1 / 2 ^ nat (- e))"

text \<open>The integer part of the binary logarithm of a positive number.\<close>

definition ilog2 :: "rat \<Rightarrow> int" where
  "ilog2 x =
     (case quotient_of x of
        (p, q) \<Rightarrow>
          let d = bitLength p - bitLength q
          in if pow2 d \<le> x then d else d - 1)"

definition roundHalfEven :: "rat \<Rightarrow> int" where
  "roundHalfEven y =
     (let f = \<lfloor>y\<rfloor>; d = y - of_int f in
      if d < 1 / 2 then f
      else if 1 / 2 < d then f + 1
      else if even f then f else f + 1)"

definition roundF64 :: "rat \<Rightarrow> rat" where
  "roundF64 x =
     (if x = 0 then 0
      else
        let e = ilog2 \<bar>x\<bar> - 52
        in of_int (roundHalfEven (x / pow2 e)) * pow2 e)"

definition float64 :: "int \<Rightarrow> rat" where
  "float64 n = roundF64 (of_int n)"

definition fdiv :: "rat \<Rightarrow> rat \<Rightarrow> rat" where
  "fdiv x y = roundF64 (x / y)"

definition fmul :: "rat \<Rightarrow> rat \<Rightarrow> rat" where
  "fmul x y = roundF64 (x * y)"

section \<open>Compression\<close>

record cstate =
  stats :: CompressStats
  trace :: "event list"

definition written :: "event list \<Rightarrow> entry list" where
  "written tr = concat (map (\<lambda>ev. case ev of Wrote e \<Rightarrow> [e] | _ \<Rightarrow> []) tr)"

text \<open>\<open>addFileToZip\<close> and \<open>addFileToTar\<close>: the file is opened, its header is built from
  its \<open>FileInfo\<close> with the name in the archive, and header and bytes are written.\<close>

definition addFileToZip :: "codecs \<Rightarrow> fs \<Rightarrow> string \<Rightarrow> string \<Rightarrow> entry option" where
  "addFileToZip L w filePath archivePath =
     (case os_ReadFile w filePath of
        Inl e \<Rightarrow> None
      | Inr c \<Rightarrow>
          (let e = ZipEntry \<lparr>zipName = archivePath, Method = Deflate,
                             UncompressedSize64 = int (length c)\<rparr> c
           in if writeFails L ''.zip'' e then None else Some e))"

definition addFileToTar :: "codecs \<Rightarrow> string \<Rightarrow> fs \<Rightarrow> string \<Rightarrow> string \<Rightarrow> entry option" where
  "addFileToTar L fmt w filePath archivePath =
     (case os_ReadFile w filePath of
        Inl e \<Rightarrow> None
      | Inr c \<Rightarrow>
          (let e = TarEntry \<lparr>tarName = archivePath, Typeflag = TypeReg,
                             Size = int (length c), Linkname = []\<rparr> c
           in if writeFails L fmt e then None else Some e))"

definition relPathOf :: "string \<Rightarrow> string \<Rightarrow> string" where
  "relPathOf baseDir file = (case Rel baseDir file of None \<Rightarrow> Base file | Some r \<Rightarrow> r)"

definition report :: "CompressOptions \<Rightarrow> int \<Rightarrow> int \<Rightarrow> string \<Rightarrow> CompressStats \<Rightarrow> event list" where
  "report opts cur tot name st =
     (if OnProgress opts then [Progress cur tot name] else [])
     @ (if OnStats opts then [CompressSnapshot st] else [])"

text \<open>
  The loop of \<open>compressZip\<close> over the files, from index \<open>i\<close>; \<open>n\<close> is \<open>len(files)\<close>. Each
  round looks at the context, updates the statistics, calls the callbacks and then adds
  the file.
\<close>

fun zipLoop :: "codecs \<Rightarrow> Context \<Rightarrow> fs \<Rightarrow> CompressOptions \<Rightarrow> int \<Rightarrow> nat \<Rightarrow> string list \<Rightarrow> cstate \<Rightarrow> error option \<times> cstate" where
  "zipLoop L ctx w opts n i [] s = (None, s)"
| "zipLoop L ctx w opts n i (file # rest) s =
     (if ctx i then (Some Cancelled, s)
      else
        let relPath = relPathOf (Dir (Source opts)) file;
            st = (stats s)\<lparr>ProcessedFiles := int i + 1, CurrentFile := relPath\<rparr>;
            s1 = s\<lparr>stats := st, trace := trace s @ report opts (int i + 1) n relPath st\<rparr>
        in case addFileToZip L w file relPath of
             None \<Rightarrow> (Some (AddFileFailed relPath), s1)
           | Some e \<Rightarrow> zipLoop L ctx w opts n (Suc i) rest (s1\<lparr>trace := trace s1 @ [Wrote e]\<rparr>))"

text \<open>The loop of \<open>compressTar\<close>; \<open>fmt\<close> names the compressing writer the TAR writer
  writes to.\<close>

fun tarLoop :: "codecs \<Rightarrow> string \<Rightarrow> Context \<Rightarrow> fs \<Rightarrow> CompressOptions \<Rightarrow> int \<Rightarrow> nat \<Rightarrow> string list \<Rightarrow> cstate \<Rightarrow> error option \<times> cstate" where
  "tarLoop L fmt ctx w opts n i [] s = (None, s)"
| "tarLoop L fmt ctx w opts n i (file # rest) s =
     (if ctx i then (Some Cancelled, s)
      else
        let relPath = relPathOf (Dir (Source opts)) file;
            st = (stats s)\<lparr>ProcessedFiles := int i + 1, CurrentFile := relPath\<rparr>;
            s1 = s\<lparr>stats := st, trace := trace s @ report opts (int i + 1) n relPath st\<rparr>
        in case addFileToTar L fmt w file relPath of
             None \<Rightarrow> (Some (AddFileFailed relPath), s1)
           | Some e \<Rightarrow> tarLoop L fmt ctx w opts n (Suc i) rest (s1\<lparr>trace := trace s1 @ [Wrote e]\<rparr>))"

text \<open>\<open>compressTar\<close>: the loop over all the files.\<close>

definition compressTar :: "codecs \<Rightarrow> string \<Rightarrow> Context \<Rightarrow> string list \<Rightarrow> fs \<Rightarrow> CompressOptions \<Rightarrow> cstate \<Rightarrow> error option \<times> cstate" where
  "compressTar L fmt ctx fileList w opts s =
     tarLoop L fmt ctx w opts (int (length fileList)) 0 fileList s"

text \<open>
  The deferred \<open>Close\<close> calls run on every return after the output has been created: the
  output then holds what the format makes of the entries written so far. Until then
  it is the empty file \<open>os.Create\<close> made.
\<close>

definition closeOutput :: "codecs \<Rightarrow> string \<Rightarrow> fs \<Rightarrow> string \<Rightarrow> event list \<Rightarrow> fs" where
  "closeOutput L fmt w out tr =
     (case os_WriteFile w out (encode L fmt (written tr)) of Inl e \<Rightarrow> w | Inr w' \<Rightarrow> w')"

definition compressZip :: "codecs \<Rightarrow> Context \<Rightarrow> string list \<Rightarrow> CompressOptions \<Rightarrow> fs \<Rightarrow> cstate \<Rightarrow> error option \<times> fs \<times> cstate" where
  "compressZip L ctx fileList opts w s =
     (case os_WriteFile w (Output opts) [] of
        Inl e \<Rightarrow> (Some (CreateOutputFailed e), w, s)
      | Inr w1 \<Rightarrow>
          (case zipLoop L ctx w1 opts (int (length fileList)) 0 fileList s of
             (err, s') \<Rightarrow> (err, closeOutput L ''.zip'' w1 (Output opts) (trace s'), s')))"

text \<open>The adapters with a writer that is made without an error: the output is created,
  the files are written by \<open>compressTar\<close>, and the writers are closed.\<close>

definition compressTarPlain :: "codecs \<Rightarrow> string \<Rightarrow> Context \<Rightarrow> string list \<Rightarrow> CompressOptions \<Rightarrow> fs \<Rightarrow> cstate \<Rightarrow> error option \<times> fs \<times> cstate" where
  "compressTarPlain L fmt ctx fileList opts w s =
     (case os_WriteFile w (Output opts) [] of
        Inl e \<Rightarrow> (Some (CreateOutputFailed e), w, s)
      | Inr w1 \<Rightarrow>
          (case compressTar L fmt ctx fileList w1 opts s of
             (err, s') \<Rightarrow> (err, closeOutput L fmt w1 (Output opts) (trace s'), s')))"

text \<open>The adapters with a writer whose constructor may return an error, after the output
  was created.\<close>

definition compressTarChecked :: "codecs \<Rightarrow> string \<Rightarrow> Context \<Rightarrow> string list \<Rightarrow> CompressOptions \<Rightarrow> fs \<Rightarrow> cstate \<Rightarrow> error option \<times> fs \<times> cstate" where
  "compressTarChecked L fmt ctx fileList opts w s =
     (case os_WriteFile w (Output opts) [] of
        Inl e \<Rightarrow> (Some (CreateOutputFailed e), w, s)
      | Inr w1 \<Rightarrow>
          if newWriterFails L fmt then (Some NewWriterFailed, w1, s)
          else
            (case compressTar L fmt ctx fileList w1 opts s of
               (err, s') \<Rightarrow> (err, closeOutput L fmt w1 (Output opts) (trace s'), s')))"

text \<open>The five TAR adapters of the source.\<close>

definition compressTarGz :: "codecs \<Rightarrow> Context \<Rightarrow> string list \<Rightarrow> CompressOptions \<Rightarrow> fs \<Rightarrow> cstate \<Rightarrow> error option \<times> fs \<times> cstate" where
  "compressTarGz L = compressTarPlain L ''.tar.gz''"

definition compressTarBz2 :: "codecs \<Rightarrow> Context \<Rightarrow> string list \<Rightarrow> CompressOptions \<Rightarrow> fs \<Rightarrow> cstate \<Rightarrow> error option \<times> fs \<times> cstate" where
  "compressTarBz2 L = compressTarChecked L ''.tar.bz2''"

definition compressTarXz :: "codecs \<Rightarrow> Context \<Rightarrow> string list \<Rightarrow> CompressOptions \<Rightarrow> fs \<Rightarrow> cstate \<Rightarrow> error option \<times> fs \<times> cstate" where
  "compressTarXz L = compressTarChecked L ''.tar.xz''"

definition compressTarZstd :: "codecs \<Rightarrow> Context \<Rightarrow> string list \<Rightarrow> CompressOptions \<Rightarrow> fs \<Rightarrow> cstate \<Rightarrow> error option \<times> fs \<times> cstate" where
  "compressTarZstd L = compressTarChecked L ''.tar.zst''"

definition compressTarLz4 :: "codecs \<Rightarrow> Context \<Rightarrow> string list \<Rightarrow> CompressOptions \<Rightarrow> fs \<Rightarrow> cstate \<Rightarrow> error option \<times> fs \<times> cstate" where
  "compressTarLz4 L = compressTarPlain L ''.tar.lz4''"

text \<open>
  \<open>Compress\<close> returns a pointer to the statistics and an error; the model returns both as
  options (\<open>None\<close> is \<open>nil\<close>), with the file system and the trace the run leaves.
\<close>

record compressResult =
  cStats :: "CompressStats option"
  cErr :: "error option"
  cFs :: fs
  cTrace :: "event list"

definition zeroCompressStats :: CompressStats where
  "zeroCompressStats =
     \<lparr>TotalFiles = 0, ProcessedFiles = 0, TotalSize = 0, CurrentFile = [],
      CompressedSize = 0, ExcludedFiles = 0, CompressionRate = 0\<rparr>"

definition finishCompress :: "CompressOptions \<Rightarrow> error option \<times> fs \<times> cstate \<Rightarrow> compressResult" where
  "finishCompress opts r =
     (case r of
        (Some e, w1, s) \<Rightarrow> \<lparr>cStats = None, cErr = Some e, cFs = w1, cTrace = trace s\<rparr>
      | (None, w1, s) \<Rightarrow>
          (let st = stats s;
               st' = (case os_Stat w1 (Output opts) of
                        Inl e \<Rightarrow> st
                      | Inr outInfo \<Rightarrow>
                          (let st1 = st\<lparr>CompressedSize := nodeSize outInfo\<rparr> in
                           if TotalSize st1 > 0 then
                             st1\<lparr>CompressionRate :=
                                   fmul (fdiv (float64 (TotalSize st1 - CompressedSize st1))
                                              (float64 (TotalSize st1)))
                                        (float64 100)\<rparr>
                           else st1))
           in \<lparr>cStats = Some st', cErr = None, cFs = w1, cTrace = trace s\<rparr>))"

definition Compress :: "codecs \<Rightarrow> Context \<Rightarrow> CompressOptions \<Rightarrow> fs \<Rightarrow> compressResult" where
  "Compress L ctx opts w =
     (case os_Stat w (Source opts) of
        Inl e \<Rightarrow> \<lparr>cStats = None, cErr = Some (SourceNotFound e), cFs = w, cTrace = []\<rparr>
      | Inr _ \<Rightarrow>
          (case collectFiles w (Source opts) (Excludes opts) of
             Inl e \<Rightarrow> \<lparr>cStats = None, cErr = Some (CollectFailed e), cFs = w, cTrace = []\<rparr>
           | Inr c \<Rightarrow>
               (let s = \<lparr>stats = zeroCompressStats\<lparr>TotalFiles := int (length (files c)),
                                    TotalSize := totalSize c, ExcludedFiles := excludedCount c\<rparr>,
                         trace = []\<rparr>
                in
                if TotalFiles (stats s) = 0 then
                  \<lparr>cStats = None, cErr = Some NoFiles, cFs = w, cTrace = []\<rparr>
                else if Format opts = ''.zip'' then
                  finishCompress opts (compressZip L ctx (files c) opts w s)
                else if Format opts = ''.tar.gz'' then
                  finishCompress opts (compressTarGz L ctx (files c) opts w s)
                else if Format opts = ''.tar.bz2'' then
                  finishCompress opts (compressTarBz2 L ctx (files c) opts w s)
                else if Format opts = ''.tar.xz'' then
                  finishCompress opts (compressTarXz L ctx (files c) opts w s)
                else if Format opts = ''.tar.zst'' then
                  finishCompress opts (compressTarZstd L ctx (files c) opts w s)
                else if Format opts = ''.tar.lz4'' then
                  finishCompress opts (compressTarLz4 L ctx (files c) opts w s)
                else
                  \<lparr>cStats = None, cErr = Some (UnsupportedFormat (Format opts)), cFs = w,
                   cTrace = []\<rparr>)))"

lemmas Compress_defs =
  Compress_def compressTarGz_def compressTarBz2_def compressTarXz_def compressTarZstd_def
  compressTarLz4_def

section \<open>Extraction\<close>

record xstate =
  xStats :: ExtractStats
  xTrace :: "event list"
  xFs :: fs

definition reportX :: "ExtractOptions \<Rightarrow> int \<Rightarrow> int \<Rightarrow> string \<Rightarrow> ExtractStats \<Rightarrow> event list" where
  "reportX opts cur tot name st =
     (if OnProgress opts then [Progress cur tot name] else [])
     @ (if OnStats opts then [ExtractSnapshot st] else [])"

text \<open>\<open>extractZipFile\<close>: the entry is opened, the target is created or truncated, and
  the bytes are copied; \<open>zfData\<close> is what has been copied when the copy ends or fails.\<close>

definition extractZipFile :: "fs \<Rightarrow> zipFile \<Rightarrow> string \<Rightarrow> bool \<times> fs" where
  "extractZipFile w file target =
     (if zfOpenFails file then (False, w)
      else
        (case os_WriteFile w target (zfData file) of
           Inl e \<Rightarrow> (False, w)
         | Inr w' \<Rightarrow> (\<not> zfCopyFails file, w')))"

text \<open>
  A round of the loop of \<open>extractZip\<close>, after the callbacks: the path check, then the
  directory or the file of the entry. The answer is the error the loop returns, if any,
  and the state the round leaves.
\<close>

definition zipEntryBody :: "ExtractOptions \<Rightarrow> zipFile \<Rightarrow> xstate \<Rightarrow> error option \<times> xstate" where
  "zipEntryBody opts file s1 =
     (let target = targetPath (Output opts) (zfName file) in
      if \<not> pathAccepted (Output opts) (zfName file) then
        (Some (PathTraversal (zfName file)), s1)
      else if zfIsDir file then
        (case os_MkdirAll (xFs s1) target of
           Inl e \<Rightarrow> (Some (MkdirFailed (zfName file) e), s1)
         | Inr w' \<Rightarrow> (None, s1\<lparr>xFs := w', xTrace := xTrace s1 @ [Materialized target]\<rparr>))
      else
        (case os_MkdirAll (xFs s1) (Dir target) of
           Inl e \<Rightarrow> (Some (MkParentFailed e), s1)
         | Inr w' \<Rightarrow>
             (case extractZipFile w' file target of
                (False, w'') \<Rightarrow> (Some (ExtractFileFailed (zfName file)), s1\<lparr>xFs := w''\<rparr>)
              | (True, w'') \<Rightarrow>
                  (None,
                   s1\<lparr>xFs := w'',
                      xStats := (xStats s1)\<lparr>ExtractedSize :=
                                  ExtractedSize (xStats s1) + zfUncompressedSize64 file\<rparr>,
                      xTrace := xTrace s1 @ [Materialized target]\<rparr>))))"

text \<open>The loop of \<open>extractZip\<close> over \<open>reader.File\<close>, from index \<open>i\<close>; \<open>n\<close> is the number
  of files of the archive. Each round looks at the context, updates the statistics,
  calls the callbacks and then extracts the entry.\<close>

fun unzipLoop :: "Context \<Rightarrow> ExtractOptions \<Rightarrow> int \<Rightarrow> nat \<Rightarrow> zipFile list \<Rightarrow> xstate \<Rightarrow> error option \<times> xstate" where
  "unzipLoop ctx opts n i [] s = (None, s)"
| "unzipLoop ctx opts n i (file # rest) s =
     (if ctx i then (Some Cancelled, s)
      else
        let st = (xStats s)\<lparr>ProcessedFiles := int i + 1, CurrentFile := zfName file\<rparr>;
            s1 = s\<lparr>xStats := st,
                   xTrace := xTrace s @ reportX opts (int i + 1) n (zfName file) st\<rparr>
        in case zipEntryBody opts file s1 of
             (Some e, s2) \<Rightarrow> (Some e, s2)
           | (None, s2) \<Rightarrow> unzipLoop ctx opts n (Suc i) rest s2)"

text \<open>
  A round of the loop of \<open>extractTarReader\<close>, after the callbacks: the path check, then
  the switch on the type of the entry. The third argument says that the copy of the
  bytes fails, after the bytes given. A link that cannot be made is passed over, and so
  is an entry of any other type.
\<close>

definition tarEntryBody :: "ExtractOptions \<Rightarrow> tarHeader \<Rightarrow> string \<Rightarrow> bool \<Rightarrow> xstate \<Rightarrow> error option \<times> xstate" where
  "tarEntryBody opts header body copyFails s1 =
     (let target = targetPath (Output opts) (tarName header) in
      if \<not> pathAccepted (Output opts) (tarName header) then
        (Some (PathTraversal (tarName header)), s1)
      else
        (case Typeflag header of
           TypeDir \<Rightarrow>
             (case os_MkdirAll (xFs s1) target of
                Inl e \<Rightarrow> (Some (MkdirFailed (tarName header) e), s1)
              | Inr w' \<Rightarrow> (None, s1\<lparr>xFs := w', xTrace := xTrace s1 @ [Materialized target]\<rparr>))
         | TypeReg \<Rightarrow>
             (case os_MkdirAll (xFs s1) (Dir target) of
                Inl e \<Rightarrow> (Some (MkParentFailed e), s1)
              | Inr w' \<Rightarrow>
                  (case os_WriteFile w' target body of
                     Inl e \<Rightarrow> (Some (CreateFileFailed (tarName header) e), s1\<lparr>xFs := w'\<rparr>)
                   | Inr w'' \<Rightarrow>
                       if copyFails then
                         (Some (WriteFileFailed (tarName header)), s1\<lparr>xFs := w''\<rparr>)
                       else
                         (None,
                          s1\<lparr>xFs := w'',
                             xStats := (xStats s1)\<lparr>ExtractedSize :=
                                         ExtractedSize (xStats s1) + int (length body)\<rparr>,
                             xTrace := xTrace s1 @ [Materialized target]\<rparr>)))
         | TypeSymlink \<Rightarrow>
             (case os_MkdirAll (xFs s1) (Dir target) of
                Inl e \<Rightarrow> (Some (MkParentFailed e), s1)
              | Inr w' \<Rightarrow>
                  (case os_Symlink w' (Linkname header) target of
                     Inl e \<Rightarrow> (None, s1\<lparr>xFs := w'\<rparr>)
                   | Inr w'' \<Rightarrow>
                       (None, s1\<lparr>xFs := w'', xTrace := xTrace s1 @ [Materialized target]\<rparr>)))
         | TypeOther \<Rightarrow> (None, s1)))"

text \<open>
  The loop of \<open>extractTarReader\<close>; \<open>fileCount\<close> is the number of headers read so far, and
  also the number of times the context has been looked at. Each round looks at the
  context, reads the next header, updates the statistics, calls the callbacks and then
  extracts the entry; at the end of the stream the number of files is set.
\<close>

fun untarLoop :: "Context \<Rightarrow> ExtractOptions \<Rightarrow> nat \<Rightarrow> tarItem list \<Rightarrow> xstate \<Rightarrow> error option \<times> xstate" where
  "untarLoop ctx opts fileCount [] s =
     (if ctx fileCount then (Some Cancelled, s)
      else (None, s\<lparr>xStats := (xStats s)\<lparr>TotalFiles := int fileCount\<rparr>\<rparr>))"
| "untarLoop ctx opts fileCount (TarBad # rest) s =
     (if ctx fileCount then (Some Cancelled, s) else (Some ReadHeaderFailed, s))"
| "untarLoop ctx opts fileCount (TarNext header body copyFails # rest) s =
     (if ctx fileCount then (Some Cancelled, s)
      else
        let st = (xStats s)\<lparr>ProcessedFiles := int fileCount + 1, CurrentFile := tarName header\<rparr>;
            s1 = s\<lparr>xStats := st,
                   xTrace := xTrace s @ reportX opts (int fileCount + 1) 0 (tarName header) st\<rparr>
        in case tarEntryBody opts header body copyFails s1 of
             (Some e, s2) \<Rightarrow> (Some e, s2)
           | (None, s2) \<Rightarrow> untarLoop ctx opts (Suc fileCount) rest s2)"

text \<open>\<open>extractTarReader\<close>: the loop from the first item of the stream.\<close>

definition extractTarReader :: "Context \<Rightarrow> tarItem list \<Rightarrow> ExtractOptions \<Rightarrow> xstate \<Rightarrow> error option \<times> xstate" where
  "extractTarReader ctx items opts s = untarLoop ctx opts 0 items s"

definition extractZip :: "codecs \<Rightarrow> Context \<Rightarrow> ExtractOptions \<Rightarrow> xstate \<Rightarrow> error option \<times> xstate" where
  "extractZip L ctx opts s =
     (case os_Open (xFs s) (Source opts) of
        Inl e \<Rightarrow> (Some OpenArchiveFailed, s)
      | Inr inp \<Rightarrow>
          (case zipOpen L inp of
             None \<Rightarrow> (Some OpenArchiveFailed, s)
           | Some zfiles \<Rightarrow>
               unzipLoop ctx opts (int (length zfiles)) 0 zfiles
                 (s\<lparr>xStats := (xStats s)\<lparr>TotalFiles := int (length zfiles)\<rparr>\<rparr>)))"

text \<open>The adapters with a reader whose constructor may return an error: the archive is
  opened, the reader is made, and the entries are extracted by \<open>extractTarReader\<close>.\<close>

definition extractTarChecked :: "codecs \<Rightarrow> string \<Rightarrow> Context \<Rightarrow> ExtractOptions \<Rightarrow> xstate \<Rightarrow> error option \<times> xstate" where
  "extractTarChecked L fmt ctx opts s =
     (case os_Open (xFs s) (Source opts) of
        Inl e \<Rightarrow> (Some OpenArchiveFailed, s)
      | Inr inp \<Rightarrow>
          if newReaderFails L fmt inp then (Some NewReaderFailed, s)
          else extractTarReader ctx (tarItems L fmt inp) opts s)"

text \<open>The adapters with a reader that is made without an error.\<close>

definition extractTarPlain :: "codecs \<Rightarrow> string \<Rightarrow> Context \<Rightarrow> ExtractOptions \<Rightarrow> xstate \<Rightarrow> error option \<times> xstate" where
  "extractTarPlain L fmt ctx opts s =
     (case os_Open (xFs s) (Source opts) of
        Inl e \<Rightarrow> (Some OpenArchiveFailed, s)
      | Inr inp \<Rightarrow> extractTarReader ctx (tarItems L fmt inp) opts s)"

text \<open>The six TAR adapters of the source.\<close>

definition extractTarGz :: "codecs \<Rightarrow> Context \<Rightarrow> ExtractOptions \<Rightarrow> xstate \<Rightarrow> error option \<times> xstate" where
  "extractTarGz L = extractTarChecked L ''.tar.gz''"

definition extractTarBz2 :: "codecs \<Rightarrow> Context \<Rightarrow> ExtractOptions \<Rightarrow> xstate \<Rightarrow> error option \<times> xstate" where
  "extractTarBz2 L = extractTarChecked L ''.tar.bz2''"

definition extractTarXz :: "codecs \<Rightarrow> Context \<Rightarrow> ExtractOptions \<Rightarrow> xstate \<Rightarrow> error option \<times> xstate" where
  "extractTarXz L = extractTarChecked L ''.tar.xz''"

definition extractTarZstd :: "codecs \<Rightarrow> Context \<Rightarrow> ExtractOptions \<Rightarrow> xstate \<Rightarrow> error option \<times> xstate" where
  "extractTarZstd L = extractTarChecked L ''.tar.zst''"

definition extractTarLz4 :: "codecs \<Rightarrow> Context \<Rightarrow> ExtractOptions \<Rightarrow> xstate \<Rightarrow> error option \<times> xstate" where
  "extractTarLz4 L = extractTarPlain L ''.tar.lz4''"

definition extractTar :: "codecs \<Rightarrow> Context \<Rightarrow> ExtractOptions \<Rightarrow> xstate \<Rightarrow> error option \<times> xstate" where
  "extractTar L = extractTarPlain L ''.tar''"

record extractResult =
  xrStats :: "ExtractStats option"
  xrErr :: "error option"
  xrFs :: fs
  xrTrace :: "event list"

definition zeroExtractStats :: ExtractStats where
  "zeroExtractStats =
     \<lparr>TotalFiles = 0, ProcessedFiles = 0, TotalSize = 0, CurrentFile = [], ExtractedSize = 0\<rparr>"

definition finishExtract :: "error option \<times> xstate \<Rightarrow> extractResult" where
  "finishExtract r =
     (case r of
        (Some e, s) \<Rightarrow> \<lparr>xrStats = None, xrErr = Some e, xrFs = xFs s, xrTrace = xTrace s\<rparr>
      | (None, s) \<Rightarrow> \<lparr>xrStats = Some (xStats s), xrErr = None, xrFs = xFs s, xrTrace = xTrace s\<rparr>)"

definition Extract :: "codecs \<Rightarrow> Context \<Rightarrow> ExtractOptions \<Rightarrow> fs \<Rightarrow> extractResult" where
  "Extract L ctx opts w =
     (case os_Stat w (Source opts) of
        Inl e \<Rightarrow> \<lparr>xrStats = None, xrErr = Some (SourceNotFound e), xrFs = w, xrTrace = []\<rparr>
      | Inr sourceInfo \<Rightarrow>
          (let format = DetectArchiveFormat (lowerRunes L) (Source opts) in
           if format = [] then
             \<lparr>xrStats = None, xrErr = Some (UnsupportedFormat []), xrFs = w, xrTrace = []\<rparr>
           else
             (case os_MkdirAll w (Output opts) of
                Inl e \<Rightarrow>
                  \<lparr>xrStats = None, xrErr = Some (MkdirOutputFailed e), xrFs = w, xrTrace = []\<rparr>
              | Inr w1 \<Rightarrow>
                  (let s = \<lparr>xStats = zeroExtractStats\<lparr>TotalSize := nodeSize sourceInfo\<rparr>,
                            xTrace = [], xFs = w1\<rparr>
                   in
                   if format = ''.zip'' then finishExtract (extractZip L ctx opts s)
                   else if format = ''.tar.gz'' then
                     finishExtract (extractTarGz L ctx opts s)
                   else if format = ''.tar.bz2'' then
                     finishExtract (extractTarBz2 L ctx opts s)
                   else if format = ''.tar.xz'' then
                     finishExtract (extractTarXz L ctx opts s)
                   else if format = ''.tar.zst'' then
                     finishExtract (extractTarZstd L ctx opts s)
                   else if format = ''.tar.lz4'' then
                     finishExtract (extractTarLz4 L ctx opts s)
                   else if format = ''.tar'' then
                     finishExtract (extractTar L ctx opts s)
                   else
                     \<lparr>xrStats = None, xrErr = Some (UnsupportedFormat format), xrFs = w1,
                      xrTrace = []\<rparr>))))"

lemmas Extract_defs =
  Extract_def extractTarGz_def extractTarBz2_def extractTarXz_def extractTarZstd_def
  extractTarLz4_def extractTar_def

section \<open>The format 7z\<close>



section \<open>Notions of the specification\<close>



text \<open>
  A pattern excludes a path, in the words of the specification: a pattern with a star
  must match the last element of the path as a glob; any other pattern must be the last
  element, or stand in the path between two separators, or after a separator at its end.
\<close>

definition excludedBy :: "string \<Rightarrow> string \<Rightarrow> bool" where
  "excludedBy path pattern =
     (if CHR ''*'' \<in> set pattern then Match pattern (Base path) = Some True
      else Base path = pattern
           \<or> (\<exists>before after. path = before @ [Separator] @ pattern @ [Separator] @ after)
           \<or> (\<exists>before. path = before @ [Separator] @ pattern))"

text \<open>A path lies in a directory when the elements of the cleaned directory are the
  first elements of the cleaned path and the elements after them do not lead up with
  \<open>..\<close>; a path that cleans to \<open>.\<close> has no elements.\<close>

definition cleanElemsOf :: "string \<Rightarrow> string list" where
  "cleanElemsOf p = (if Clean p = ''.'' then [] else pathElems (Clean p))"

definition withinDir :: "string \<Rightarrow> string \<Rightarrow> bool" where
  "withinDir dir p =
     (isRooted (Clean dir) = isRooted (Clean p)
      \<and> prefix (cleanElemsOf dir) (cleanElemsOf p)
      \<and> (case drop (length (cleanElemsOf dir)) (cleanElemsOf p) of
            [] \<Rightarrow> True
          | e # _ \<Rightarrow> e \<noteq> ''..''))"

text \<open>What a round of a loop changes in the statistics is the count of processed files
  and the current file.\<close>

definition sameTotals :: "CompressStats \<Rightarrow> CompressStats \<Rightarrow> bool" where
  "sameTotals a b =
     (TotalFiles a = TotalFiles b \<and> TotalSize a = TotalSize b
      \<and> CompressedSize a = CompressedSize b \<and> ExcludedFiles a = ExcludedFiles b
      \<and> CompressionRate a = CompressionRate b)"

text \<open>An adapter that returns no error has processed every file, has left the totals
  alone and has left a file at the output.\<close>

definition adapterDone :: "error option \<times> fs \<times> cstate \<Rightarrow> CompressOptions \<Rightarrow> string list \<Rightarrow> cstate \<Rightarrow> bool" where
  "adapterDone r opts fl s =
     (case r of (err, w', s') \<Rightarrow>
        err = None \<longrightarrow>
          ProcessedFiles (stats s') = int (length fl)
          \<and> sameTotals (stats s') (stats s)
          \<and> (\<exists>out. os_Stat w' (Output opts) = Inr (FileNode out)))"

text \<open>The statistics of a compression that succeeded, in the words of the
  specification.\<close>

definition statsSettled :: "CompressStats \<Rightarrow> string \<Rightarrow> bool" where
  "statsSettled st out =
     (ProcessedFiles st = TotalFiles st
      \<and> CompressedSize st = int (length out)
      \<and> 0 \<le> TotalSize st
      \<and> CompressionRate st =
          (if TotalSize st = 0 then 0
           else fmul (fdiv (float64 (TotalSize st - CompressedSize st)) (float64 (TotalSize st)))
                     (float64 100)))"



text \<open>
  The order of a trace. A call of a callback carries the number of the entry it reports;
  \<open>Wrote\<close> and \<open>Materialized\<close> say that an entry is done. In \<open>reportedAfter k tr\<close> and
  \<open>reportedBefore k tr\<close>, \<open>k\<close> is the number of entries done before the trace \<open>tr\<close>: the
  first asks every report to come when its entry is among those done, the second when
  it is not.
\<close>

definition entryNumber :: "event \<Rightarrow> int option" where
  "entryNumber ev =
     (case ev of
        Progress cur tot name \<Rightarrow> Some cur
      | CompressSnapshot st \<Rightarrow> Some (ProcessedFiles st)
      | ExtractSnapshot st \<Rightarrow> Some (ProcessedFiles st)
      | Wrote e \<Rightarrow> None
      | Materialized t \<Rightarrow> None)"

definition isDone :: "event \<Rightarrow> bool" where
  "isDone ev = (case ev of Wrote e \<Rightarrow> True | Materialized t \<Rightarrow> True | _ \<Rightarrow> False)"

fun reportedAfter :: "nat \<Rightarrow> event list \<Rightarrow> bool" where
  "reportedAfter k [] = True"
| "reportedAfter k (ev # tr) =
     (case entryNumber ev of
        Some c \<Rightarrow> c \<le> int k \<and> reportedAfter k tr
      | None \<Rightarrow> reportedAfter (if isDone ev then Suc k else k) tr)"

fun reportedBefore :: "nat \<Rightarrow> event list \<Rightarrow> bool" where
  "reportedBefore k [] = True"
| "reportedBefore k (ev # tr) =
     (case entryNumber ev of
        Some c \<Rightarrow> int k < c \<and> reportedBefore k tr
      | None \<Rightarrow> reportedBefore (if isDone ev then Suc k else k) tr)"

definition snapshotNumbers :: "event list \<Rightarrow> int list" where
  "snapshotNumbers tr =
     concat (map (\<lambda>ev. case ev of
                          CompressSnapshot st \<Rightarrow> [ProcessedFiles st]
                        | ExtractSnapshot st \<Rightarrow> [ProcessedFiles st]
                        | _ \<Rightarrow> []) tr)"

definition doneCount :: "event list \<Rightarrow> nat" where
  "doneCount tr = length (filter isDone tr)"

text \<open>The invariant of the loops: \<open>d\<close> bounds the entries done and \<open>p\<close> the numbers of the
  snapshots.\<close>

definition ordered :: "nat \<Rightarrow> int \<Rightarrow> event list \<Rightarrow> bool" where
  "ordered d p tr =
     (reportedBefore 0 tr \<and> doneCount tr \<le> d
      \<and> (\<forall>c\<in>set (snapshotNumbers tr). c \<le> p) \<and> sorted_wrt (<) (snapshotNumbers tr))"

text \<open>The order of a whole run: \<open>final\<close> is the count of processed files in the statistics
  returned, if any are.\<close>

definition orderedRun :: "event list \<Rightarrow> int option \<Rightarrow> bool" where
  "orderedRun tr final =
     (reportedBefore 0 tr \<and> sorted_wrt (<) (snapshotNumbers tr)
      \<and> (case final of None \<Rightarrow> True | Some p \<Rightarrow> list_all (\<lambda>c. c \<le> p) (snapshotNumbers tr)))"


section \<open>Example inputs\<close>

definition noCancel :: Context where
  "noCancel = (\<lambda>k. False)"

text \<open>A stand-in for the libraries: an archive is its format followed by the names and
  the bytes of its entries; nothing fails and nothing is read back.\<close>

definition entryBytes :: "entry \<Rightarrow> string" where
  "entryBytes e = (case e of ZipEntry h d \<Rightarrow> zipName h @ d | TarEntry h d \<Rightarrow> tarName h @ d)"

definition demoCodecs :: codecs where
  "demoCodecs =
     \<lparr>encode = (\<lambda>fmt es. fmt @ concat (map entryBytes es)),
      newWriterFails = (\<lambda>fmt. False),
      writeFails = (\<lambda>fmt e. False),
      zipOpen = (\<lambda>inp. None),
      newReaderFails = (\<lambda>fmt inp. False),
      tarItems = (\<lambda>fmt inp. []),
      lowerRunes = (\<lambda>s. s)\<rparr>"

text \<open>A tree with the project \<open>/src/proj\<close>, an archive \<open>/data.7z\<close> and an archive
  \<open>/evil.tar\<close>.\<close>

definition demoFs :: fs where
  "demoFs =
     \<lparr>root = DirNode
        [(''data.7z'', FileNode ''7z''),
         (''evil.tar'', FileNode ''tar''),
         (''home'', DirNode [(''u'', DirNode [])]),
         (''src'', DirNode
            [(''proj'', DirNode
               [(''a.log'', FileNode ''xx''),
                (''keep.txt'', FileNode ''hello''),
                (''node_modules'', DirNode [(''x.js'', FileNode ''abc'')])])])],
      cwd = ''/home/u''\<rparr>"

definition sevenZipOpts :: ExtractOptions where
  "sevenZipOpts = \<lparr>Source = ''/data.7z'', Output = ''/out'', OnProgress = True, OnStats = True\<rparr>"




text \<open>Archives of one regular file each, with the names \<open>../out2/f\<close> and
  \<open>../../etc/passwd\<close>.\<close>

definition slipCodecs :: codecs where
  "slipCodecs =
     demoCodecs\<lparr>tarItems := (\<lambda>fmt inp.
        [TarNext \<lparr>tarName = ''../out2/f'', Typeflag = TypeReg, Size = 2, Linkname = []\<rparr>
           ''hi'' False])\<rparr>"

definition slipOpts :: ExtractOptions where
  "slipOpts = \<lparr>Source = ''/evil.tar'', Output = ''/out'', OnProgress = True, OnStats = True\<rparr>"

definition passwdCodecs :: codecs where
  "passwdCodecs =
     demoCodecs\<lparr>tarItems := (\<lambda>fmt inp.
        [TarNext \<lparr>tarName = ''../../etc/passwd'', Typeflag = TypeReg, Size = 4, Linkname = []\<rparr>
           ''root'' False])\<rparr>"

definition passwdOptsRooted :: ExtractOptions where
  "passwdOptsRooted =
     \<lparr>Source = ''/evil.tar'', Output = ''/e'', OnProgress = True, OnStats = True\<rparr>"

definition passwdOptsHere :: ExtractOptions where
  "passwdOptsHere =
     \<lparr>Source = ''/evil.tar'', Output = ''.'', OnProgress = True, OnStats = True\<rparr>"

definition zipOpts :: CompressOptions where
  "zipOpts =
     \<lparr>Source = ''/src/proj'', Output = ''/src/proj.zip'', OnProgress = True, OnStats = True,
      Format = ''.zip'', Excludes = [''*.log'', ''node_modules'']\<rparr>"

definition cancelAt :: "nat \<Rightarrow> Context" where
  "cancelAt N = (\<lambda>k. N \<le> k)"

text \<open>An archive in which the file \<open>a\<close> is followed by the file \<open>a/b\<close>: the directory of
  the second cannot be made.\<close>

definition clashCodecs :: codecs where
  "clashCodecs =
     demoCodecs\<lparr>tarItems := (\<lambda>fmt inp.
        [TarNext \<lparr>tarName = ''a'', Typeflag = TypeReg, Size = 1, Linkname = []\<rparr> ''x'' False,
         TarNext \<lparr>tarName = ''a/b'', Typeflag = TypeReg, Size = 1, Linkname = []\<rparr> ''y'' False])\<rparr>"



definition c0 :: cstate where
  "c0 = \<lparr>stats = zeroCompressStats\<lparr>TotalFiles := 3, TotalSize := 10\<rparr>, trace = []\<rparr>"




section \<open>Format detection: the suffixes\<close>











section \<open>Exclusion: the patterns\<close>

lemma sublist_bounded:
  "sublist ([Separator] @ pattern @ [Separator]) path
     \<longleftrightarrow> (\<exists>before after. path = before @ [Separator] @ pattern @ [Separator] @ after)"
  by (simp add: sublist_def)

lemma suffix_bounded:
  "suffix ([Separator] @ pattern) path \<longleftrightarrow> (\<exists>before. path = before @ [Separator] @ pattern)"
  by (simp add: suffix_def)

lemma excludeLoop_Cons:
  "excludeLoop (Base path) path (pattern # rest)
     \<longleftrightarrow> excludedBy path pattern \<or> excludeLoop (Base path) path rest"
  unfolding excludedBy_def sublist_bounded [symmetric] suffix_bounded [symmetric]
  by simp

lemma excludeLoop_iff:
  "excludeLoop (Base path) path excludes \<longleftrightarrow> (\<exists>pattern\<in>set excludes. excludedBy path pattern)"
  by (induction excludes) (simp_all add: excludeLoop_Cons del: excludeLoop.simps(2))

lemma splitAcc_append_sep:
  "splitAcc acc (a @ Separator # b) = splitAcc acc a @ splitAcc [] b"
  by (induction a arbitrary: acc) auto

lemma splitAcc_sepfree: "Separator \<notin> set p \<Longrightarrow> splitAcc acc p = [rev acc @ p]"
  by (induction p arbitrary: acc) auto

lemma splitAcc_nonempty: "splitAcc acc p \<noteq> []"
  by (induction p arbitrary: acc) auto

lemma joinSep_Cons: "es \<noteq> [] \<Longrightarrow> joinSep (e # es) = e @ Separator # joinSep es"
  by (cases es) auto

lemma joinSep_append:
  "xs \<noteq> [] \<Longrightarrow> ys \<noteq> [] \<Longrightarrow> joinSep (xs @ ys) = joinSep xs @ Separator # joinSep ys"
proof (induction xs)
  case Nil
  then show ?case by simp
next
  case (Cons x xs)
  show ?case
  proof (cases "xs = []")
    case True
    with Cons.prems show ?thesis by (simp add: joinSep_Cons)
  next
    case False
    with Cons show ?thesis by (simp add: joinSep_Cons)
  qed
qed

lemma joinSep_splitAcc: "joinSep (splitAcc acc p) = rev acc @ p"
proof (induction p arbitrary: acc)
  case Nil
  show ?case by simp
next
  case (Cons c p)
  show ?case
  proof (cases "c = Separator")
    case True
    have "joinSep (rev acc # splitAcc [] p) = rev acc @ Separator # joinSep (splitAcc [] p)"
      by (rule joinSep_Cons) (rule splitAcc_nonempty)
    with True Cons [of "[]"] show ?thesis by simp
  next
    case False
    with Cons [of "c # acc"] show ?thesis by simp
  qed
qed

text \<open>For a pattern with no separator in it, to stand between separators is to be an
  element of the path other than the first.\<close>

lemma segment_iff:
  assumes "Separator \<notin> set p"
  shows "p \<in> set (tl (splitPath path)) \<longleftrightarrow>
         (\<exists>before after. path = before @ [Separator] @ p @ [Separator] @ after)
         \<or> (\<exists>before. path = before @ [Separator] @ p)"
proof
  assume "p \<in> set (tl (splitPath path))"
  then obtain ys zs where tl: "tl (splitPath path) = ys @ p # zs"
    by (auto simp: in_set_conv_decomp)
  obtain x where sp: "splitPath path = (x # ys) @ p # zs"
    using tl splitAcc_nonempty [of "[]" path] by (cases "splitPath path") (auto simp: splitPath_def)
  have path: "path = joinSep ((x # ys) @ p # zs)"
    using joinSep_splitAcc [of "[]" path] sp by (simp add: splitPath_def)
  show "(\<exists>before after. path = before @ [Separator] @ p @ [Separator] @ after)
         \<or> (\<exists>before. path = before @ [Separator] @ p)"
  proof (cases "zs = []")
    case True
    then have "path = joinSep (x # ys) @ [Separator] @ p"
      using path joinSep_append [of "x # ys" "[p]"] by simp
    then show ?thesis by blast
  next
    case False
    then have "path = joinSep (x # ys) @ Separator # (p @ Separator # joinSep zs)"
      using path joinSep_append [of "x # ys" "p # zs"] joinSep_Cons [of zs p] by simp
    then have "path = joinSep (x # ys) @ [Separator] @ p @ [Separator] @ joinSep zs" by simp
    then show ?thesis by blast
  qed
next
  assume "(\<exists>before after. path = before @ [Separator] @ p @ [Separator] @ after)
         \<or> (\<exists>before. path = before @ [Separator] @ p)"
  then show "p \<in> set (tl (splitPath path))"
  proof
    assume "\<exists>before after. path = before @ [Separator] @ p @ [Separator] @ after"
    then obtain a b where "path = a @ [Separator] @ p @ [Separator] @ b" by blast
    then have "path = a @ Separator # ((p @ Separator # b))" by simp
    then have "splitPath path = splitAcc [] a @ splitAcc [] (p @ Separator # b)"
      by (simp add: splitPath_def splitAcc_append_sep)
    also have "splitAcc [] (p @ Separator # b) = splitAcc [] p @ splitAcc [] b"
      by (rule splitAcc_append_sep)
    also have "splitAcc [] p = [p]" using assms by (simp add: splitAcc_sepfree)
    finally show ?thesis using splitAcc_nonempty [of "[]" a] by (cases "splitAcc [] a") auto
  next
    assume "\<exists>before. path = before @ [Separator] @ p"
    then obtain a where "path = a @ Separator # p" by auto
    then have "splitPath path = splitAcc [] a @ splitAcc [] p"
      by (simp add: splitPath_def splitAcc_append_sep)
    also have "splitAcc [] p = [p]" using assms by (simp add: splitAcc_sepfree)
    finally show ?thesis using splitAcc_nonempty [of "[]" a] by (cases "splitAcc [] a") auto
  qed
qed

text \<open>
  C5. \<open>shouldExclude\<close> answers true exactly when some pattern of the list excludes the
  path: a pattern with a star by matching the last element of the path as a glob, any
  other pattern by being the last element or by standing in the path between two
  separators or after a separator at its end (for a pattern without a separator: by being
  an element of the path other than the first). A pattern that excludes the path decides
  the answer whatever patterns follow it, and the empty list excludes nothing.
\<close>

theorem C5_shouldExclude:
  "(shouldExclude path excludes \<longleftrightarrow> (\<exists>pattern\<in>set excludes. excludedBy path pattern))
   \<and> (excludedBy path pattern \<longrightarrow> shouldExclude path (pattern # rest))
   \<and> (CHR ''*'' \<notin> set pattern \<and> Separator \<notin> set pattern \<longrightarrow>
        (excludedBy path pattern
           \<longleftrightarrow> Base path = pattern \<or> pattern \<in> set (tl (splitPath path))))
   \<and> \<not> shouldExclude path []"
proof (intro conjI impI)
  show "shouldExclude path excludes \<longleftrightarrow> (\<exists>pattern\<in>set excludes. excludedBy path pattern)"
    by (simp add: shouldExclude_def excludeLoop_iff)
  show "\<not> shouldExclude path []"
    by (simp add: shouldExclude_def)
next
  assume "excludedBy path pattern"
  then show "shouldExclude path (pattern # rest)"
    by (simp add: shouldExclude_def excludeLoop_Cons del: excludeLoop.simps(2))
next
  assume "CHR ''*'' \<notin> set pattern \<and> Separator \<notin> set pattern"
  then show "excludedBy path pattern
      \<longleftrightarrow> Base path = pattern \<or> pattern \<in> set (tl (splitPath path))"
    using segment_iff [of pattern path] by (simp add: excludedBy_def)
qed

theorem C5_shouldExclude_witness:
  "shouldExclude ''proj/sub/a.log'' [''node_modules'', ''*.log'', ''dist'']
   \<and> excludedBy ''proj/sub/a.log'' ''*.log''
   \<and> excludedBy ''proj/node_modules/x.js'' ''node_modules''
   \<and> shouldExclude ''proj/node_modules/x.js'' [''node_modules'', ''*.log'']
   \<and> ''node_modules'' \<in> set (tl (splitPath ''proj/node_modules/x.js''))
   \<and> \<not> shouldExclude ''proj/keep.txt'' [''node_modules'', ''*.log'']
   \<and> \<not> shouldExclude ''proj/keep.txt'' []"
proof -
  have m: "Match ''*.log'' (Base ''proj/sub/a.log'') = Some True" by code_simp
  then have e1: "excludedBy ''proj/sub/a.log'' ''*.log''" by (simp add: excludedBy_def)
  have star: "CHR ''*'' \<notin> set ''node_modules'' \<and> Separator \<notin> set ''node_modules''"
    by (simp add: Separator_def)
  have seg: "''node_modules'' \<in> set (tl (splitPath ''proj/node_modules/x.js''))" by code_simp
  have k: "\<not> shouldExclude ''proj/keep.txt'' [''node_modules'', ''*.log'']" by code_simp
  note t1 = C5_shouldExclude [of "''proj/sub/a.log''" "[''node_modules'', ''*.log'', ''dist'']" "''*.log''" "[]"]
  note t2 = C5_shouldExclude [of "''proj/node_modules/x.js''" "[]" "''node_modules''" "[''*.log'']"]
  from t1 e1 have s1: "shouldExclude ''proj/sub/a.log'' [''node_modules'', ''*.log'', ''dist'']"
    by auto
  from t2 star seg have e2: "excludedBy ''proj/node_modules/x.js'' ''node_modules''" by blast
  with t2 have s2: "shouldExclude ''proj/node_modules/x.js'' [''node_modules'', ''*.log'']" by blast
  from t1 have "\<not> shouldExclude ''proj/sub/a.log'' []" by blast
  from C5_shouldExclude [of "''proj/keep.txt''" "[]" "[]" "[]"] have n: "\<not> shouldExclude ''proj/keep.txt'' []"
    by blast
  from s1 e1 e2 s2 seg k n show ?thesis by blast
qed

section \<open>The path check: what it accepts\<close>

text \<open>
  C9. The check of extraction compares strings, not path elements: with the output root
  \<open>/out\<close> and the entry name \<open>../out2/f\<close> the cleaned target is \<open>/out2/f\<close>, which has
  the string \<open>/out\<close> as a prefix and is accepted, although it lies outside the directory
  \<open>/out\<close>. Extracting an archive with this entry succeeds and leaves the file \<open>/out2/f\<close>.
\<close>

theorem C9_prefix_check_is_on_strings:
  "Clean (targetPath ''/out'' ''../out2/f'') = ''/out2/f''
   \<and> prefix (Clean ''/out'') ''/out2/f''
   \<and> pathAccepted ''/out'' ''../out2/f''
   \<and> \<not> withinDir ''/out'' ''/out2/f''
   \<and> xrErr (Extract slipCodecs noCancel slipOpts demoFs) = None
   \<and> os_ReadFile (xrFs (Extract slipCodecs noCancel slipOpts demoFs)) ''/out2/f'' = Inr ''hi''
   \<and> os_Stat demoFs ''/out2/f'' = Inl ENOENT"
  by code_simp

text \<open>
  C1, where the code departs from it. An entry named \<open>../../etc/passwd\<close> is accepted when
  the output root is \<open>/e\<close>, and when it is \<open>.\<close> (here in the working directory
  \<open>/home/u\<close>): the extraction returns no error and leaves the file \<open>/etc/passwd\<close>,
  outside the output directory.
\<close>

theorem C1_traversal_accepted:
  "pathAccepted ''/e'' ''../../etc/passwd''
   \<and> targetPath ''/e'' ''../../etc/passwd'' = ''/etc/passwd''
   \<and> \<not> withinDir ''/e'' ''/etc/passwd''
   \<and> xrErr (Extract passwdCodecs noCancel passwdOptsRooted demoFs) = None
   \<and> os_ReadFile (xrFs (Extract passwdCodecs noCancel passwdOptsRooted demoFs)) ''/etc/passwd''
       = Inr ''root''
   \<and> pathAccepted ''.'' ''../../etc/passwd''
   \<and> targetPath ''.'' ''../../etc/passwd'' = ''../../etc/passwd''
   \<and> \<not> withinDir ''.'' ''../../etc/passwd''
   \<and> xrErr (Extract passwdCodecs noCancel passwdOptsHere demoFs) = None
   \<and> os_ReadFile (xrFs (Extract passwdCodecs noCancel passwdOptsHere demoFs)) ''/etc/passwd''
       = Inr ''root''"
  by code_simp

section \<open>Collecting: what is excluded\<close>

lemma walkDir_excluded:
  assumes "walkExcluded source excludes path"
  shows "walkDir source excludes path d st = (WalkNil, st\<lparr>excludedCount := excludedCount st + 1\<rparr>)"
  using assms by (cases d) (simp_all add: visit_def isDir_def)

lemma walkDir_kept_file:
  assumes "\<not> walkExcluded source excludes path"
  shows "walkDir source excludes path (FileNode c) st
         = (WalkNil, st\<lparr>files := files st @ [path], totalSize := totalSize st + int (length c)\<rparr>)"
  using assms by (simp add: visit_def isDir_def nodeSize_def)

text \<open>
  C6. When the walk comes to a node that is excluded, a directory with whatever it holds
  or a file, it counts one exclusion, adds no file and goes on with the next node: the
  answer does not depend on what is below the node. A file that is not excluded is added
  with its size. For the patterns \<open>*.log\<close> and \<open>node_modules\<close> and the tree of
  \<open>/src/proj\<close> with \<open>a.log\<close>, \<open>node_modules/x.js\<close> and \<open>keep.txt\<close>, the files collected
  are \<open>keep.txt\<close> alone and the count of exclusions is 2.
\<close>

theorem C6_exclusion_prunes:
  "(walkExcluded source excludes path \<longrightarrow>
      walkDir source excludes path d st
        = (WalkNil, st\<lparr>excludedCount := excludedCount st + 1\<rparr>))
   \<and> (\<not> walkExcluded source excludes path \<longrightarrow>
      walkDir source excludes path (FileNode c) st
        = (WalkNil, st\<lparr>files := files st @ [path], totalSize := totalSize st + int (length c)\<rparr>))
   \<and> collectFiles demoFs ''/src/proj'' [''*.log'', ''node_modules'']
       = Inr \<lparr>files = [''/src/proj/keep.txt''], totalSize = 5, excludedCount = 2\<rparr>"
proof (intro conjI impI)
  assume "walkExcluded source excludes path"
  then show "walkDir source excludes path d st
      = (WalkNil, st\<lparr>excludedCount := excludedCount st + 1\<rparr>)"
    by (rule walkDir_excluded)
next
  assume "\<not> walkExcluded source excludes path"
  then show "walkDir source excludes path (FileNode c) st
      = (WalkNil, st\<lparr>files := files st @ [path], totalSize := totalSize st + int (length c)\<rparr>)"
    by (rule walkDir_kept_file)
next
  show "collectFiles demoFs ''/src/proj'' [''*.log'', ''node_modules'']
      = Inr \<lparr>files = [''/src/proj/keep.txt''], totalSize = 5, excludedCount = 2\<rparr>"
    by code_simp
qed

theorem C6_exclusion_prunes_witness:
  "walkExcluded ''/src/proj'' [''*.log'', ''node_modules''] ''/src/proj/node_modules''
   \<and> walkDir ''/src/proj'' [''*.log'', ''node_modules''] ''/src/proj/node_modules''
         (DirNode [(''x.js'', FileNode ''abc'')]) \<lparr>files = [], totalSize = 0, excludedCount = 1\<rparr>
       = (WalkNil, \<lparr>files = [], totalSize = 0, excludedCount = 2\<rparr>)
   \<and> \<not> walkExcluded ''/src/proj'' [''*.log'', ''node_modules''] ''/src/proj/keep.txt''
   \<and> walkDir ''/src/proj'' [''*.log'', ''node_modules''] ''/src/proj/keep.txt''
         (FileNode ''hello'') \<lparr>files = [], totalSize = 0, excludedCount = 1\<rparr>
       = (WalkNil, \<lparr>files = [''/src/proj/keep.txt''], totalSize = 5, excludedCount = 1\<rparr>)"
proof -
  have x: "walkExcluded ''/src/proj'' [''*.log'', ''node_modules''] ''/src/proj/node_modules''"
    by code_simp
  have k: "\<not> walkExcluded ''/src/proj'' [''*.log'', ''node_modules''] ''/src/proj/keep.txt''"
    by code_simp
  note t1 = C6_exclusion_prunes [of "''/src/proj''" "[''*.log'', ''node_modules'']"
      "''/src/proj/node_modules''" "DirNode [(''x.js'', FileNode ''abc'')]"
      "\<lparr>files = [], totalSize = 0, excludedCount = 1\<rparr>" "[]"]
  note t2 = C6_exclusion_prunes [of "''/src/proj''" "[''*.log'', ''node_modules'']"
      "''/src/proj/keep.txt''" "FileNode []"
      "\<lparr>files = [], totalSize = 0, excludedCount = 1\<rparr>" "''hello''"]
  from t1 x t2 k show ?thesis by simp
qed

section \<open>The file system: a file that was written is there\<close>

text \<open>
  Writing a file changes the tree at the place of the file only, and the walk along a
  path depends on the kinds of the nodes it meets alone: the path by which the file was
  written leads to the file afterwards, whatever links it goes through.
\<close>

lemma map_of_putEntry: "map_of (putEntry k v es) k' = (if k' = k then Some v else map_of es k')"
  by (induction es) auto

lemma putNode_isDir: "isDir r \<Longrightarrow> isDir (putNode r loc v)"
  by (induction r loc v rule: putNode.induct) (auto simp: isDir_def split: option.splits)

lemma kindAt_dir: "kindAt r cur e \<noteq> NoDir \<Longrightarrow> isDir r"
  by (cases r) (auto simp: isDir_def)

lemma lookupNode_kind:
  "lookupNode r (cur @ [e]) = Inr (FileNode b0) \<Longrightarrow> kindAt r cur e = IsFile"
proof (induction cur arbitrary: r)
  case Nil
  then show ?case by (cases r) (auto split: option.splits)
next
  case (Cons d ds)
  then show ?case by (cases r) (auto split: option.splits)
qed

lemma lookupNode_putNode:
  assumes "loc \<noteq> []"
    and "kindAt r (butlast loc) (last loc) = Missing \<or> kindAt r (butlast loc) (last loc) = IsFile"
  shows "lookupNode (putNode r loc v) loc = Inr v"
  using assms
proof (induction loc arbitrary: r rule: list_nonempty_induct)
  case (single x)
  then show ?case by (cases r) (auto simp: map_of_putEntry)
next
  case (cons x xs)
  then obtain y ys where xs: "xs = y # ys" by (cases xs) auto
  from cons.prems obtain es where r: "r = DirNode es" by (cases r) (auto simp: xs)
  from cons.prems r xs obtain ch where ch: "map_of es x = Some ch"
    by (cases "map_of es x") auto
  from cons.prems r xs ch
  have "kindAt ch (butlast xs) (last xs) = Missing \<or> kindAt ch (butlast xs) (last xs) = IsFile"
    by auto
  from cons.IH [OF this] r xs ch show ?case by (simp add: map_of_putEntry)
qed

lemma kindAt_putNode:
  assumes "loc \<noteq> []"
    and "kindAt r (butlast loc) (last loc) = Missing \<or> kindAt r (butlast loc) (last loc) = IsFile"
  shows "kindAt (putNode r loc (FileNode c)) cur e
         = (if cur @ [e] = loc then IsFile else kindAt r cur e)"
  using assms
proof (induction loc arbitrary: r cur rule: list_nonempty_induct)
  case (single x)
  from single.prems obtain es where r: "r = DirNode es" by (cases r) auto
  from single.prems r have m: "map_of es x = None \<or> (\<exists>b0. map_of es x = Some (FileNode b0))"
    by (auto split: option.splits node.splits)
  show ?case
  proof (cases cur)
    case Nil
    with r show ?thesis by (simp add: map_of_putEntry)
  next
    case (Cons d ds)
    with r m show ?thesis by (auto simp: map_of_putEntry)
  qed
next
  case (cons x xs)
  then obtain y ys where xs: "xs = y # ys" by (cases xs) auto
  from cons.prems obtain es where r: "r = DirNode es" by (cases r) (auto simp: xs)
  from cons.prems r xs obtain ch where ch: "map_of es x = Some ch"
    by (cases "map_of es x") auto
  from cons.prems r xs ch
  have pre: "kindAt ch (butlast xs) (last xs) = Missing \<or> kindAt ch (butlast xs) (last xs) = IsFile"
    by auto
  then have "kindAt ch (butlast xs) (last xs) \<noteq> NoDir" by auto
  then have d: "isDir ch" by (rule kindAt_dir)
  then have d': "isDir (putNode ch xs (FileNode c))" by (rule putNode_isDir)
  show ?case
  proof (cases cur)
    case Nil
    with r xs ch d d' show ?thesis
      by (auto simp: map_of_putEntry isDir_def split: node.splits)
  next
    case (Cons d ds)
    with r xs ch cons.IH [OF pre, of ds] show ?thesis
      by (auto simp: map_of_putEntry)
  qed
qed

lemma resolve_New:
  "resolve r fuel follow cur es = Inr (New loc s) \<Longrightarrow>
   loc \<noteq> [] \<and> kindAt r (butlast loc) (last loc) = Missing"
proof (induction r fuel follow cur es rule: resolve.induct)
  case (1 r fuel follow cur)
  then show ?case by simp
next
  case (2 r fuel follow cur e rest)
  show ?case
  proof (cases "e = [] \<or> e = ''.''")
    case True
    with "2.prems" have "resolve r fuel follow cur rest = Inr (New loc s)" by simp
    from "2.IH"(1) [OF True this] show ?thesis .
  next
    case False
    note F1 = False
    show ?thesis
    proof (cases "e = ''..''")
      case True
      with F1 "2.prems" have "resolve r fuel follow (butlast cur) rest = Inr (New loc s)" by simp
      from "2.IH"(2) [OF F1 True this] show ?thesis .
    next
      case False
      note F2 = False
      show ?thesis
      proof (cases "kindAt r cur e")
        case NoDir
        with F1 F2 "2.prems" show ?thesis by simp
      next
        case Missing
        with F1 F2 "2.prems" show ?thesis by (auto split: if_splits)
      next
        case IsFile
        with F1 F2 "2.prems" show ?thesis by (auto split: if_splits)
      next
        case IsDir
        with F1 F2 "2.prems" have "resolve r fuel follow (cur @ [e]) rest = Inr (New loc s)"
          by simp
        from "2.IH"(3) [OF F1 F2 IsDir this] show ?thesis .
      next
        case (IsLink t)
        show ?thesis
        proof (cases "(rest = [] \<and> \<not> follow) \<or> fuel = 0 \<or> t = []")
          case True
          with F1 F2 IsLink "2.prems" show ?thesis by (auto split: if_splits)
        next
          case False
          then have c: "\<not> (rest = [] \<and> \<not> follow)" "fuel \<noteq> 0" "t \<noteq> []" by auto
          from F1 F2 IsLink "2.prems"
          have "resolve r (fuel - 1) follow (if isRooted t then [] else cur) (splitPath t @ rest)
                = Inr (New loc s)"
            by (simp add: if_not_P [OF c(1)] c(2,3))
          from "2.IH"(4) [OF F1 F2 IsLink c this] show ?thesis .
        qed
      qed
    qed
  qed
qed

lemma resolve_putNode:
  assumes "loc \<noteq> []"
    and "kindAt r (butlast loc) (last loc) = Missing \<or> kindAt r (butlast loc) (last loc) = IsFile"
    and "resolve r fuel follow cur es = Inr pl"
    and "\<forall>l s. pl = New l s \<longrightarrow> l = loc \<and> \<not> s"
  shows "resolve (putNode r loc (FileNode c)) fuel follow cur es
         = Inr (case pl of Here l \<Rightarrow> Here l | New l s \<Rightarrow> Here loc)"
  using assms
proof (induction r fuel follow cur es rule: resolve.induct)
  case (1 r fuel follow cur)
  then show ?case by auto
next
  case (2 r fuel follow cur e rest)
  let ?r' = "putNode r loc (FileNode c)"
  note pre = "2.prems"(1,2) and res = "2.prems"(3) and pl = "2.prems"(4)
  have k': "kindAt ?r' cur e = (if cur @ [e] = loc then IsFile else kindAt r cur e)"
    using kindAt_putNode [OF pre] .
  have atloc: "cur @ [e] = loc \<Longrightarrow> kindAt r cur e = Missing \<or> kindAt r cur e = IsFile"
    using pre(2) by auto
  show ?case
  proof (cases "e = [] \<or> e = ''.''")
    case True
    with res have "resolve r fuel follow cur rest = Inr pl" by simp
    from "2.IH"(1) [OF True pre this pl] True show ?thesis by simp
  next
    case False
    note F1 = False
    show ?thesis
    proof (cases "e = ''..''")
      case True
      with F1 res have "resolve r fuel follow (butlast cur) rest = Inr pl" by simp
      from "2.IH"(2) [OF F1 True pre this pl] F1 True show ?thesis by simp
    next
      case False
      note F2 = False
      show ?thesis
      proof (cases "kindAt r cur e")
        case NoDir
        with F1 F2 res show ?thesis by simp
      next
        case Missing
        with F1 F2 res have p: "pl = New (cur @ [e]) (rest \<noteq> [])"
          by (auto split: if_splits)
        with pl have l: "cur @ [e] = loc" and r: "rest = []" by auto
        from F1 F2 k' l r p show ?thesis by simp
      next
        case IsFile
        with F1 F2 res have p: "pl = Here (cur @ [e])" and r: "rest = []"
          by (auto split: if_splits)
        from F1 F2 k' IsFile p r show ?thesis by simp
      next
        case IsDir
        with atloc have n: "cur @ [e] \<noteq> loc" by auto
        from F1 F2 IsDir res have "resolve r fuel follow (cur @ [e]) rest = Inr pl" by simp
        from "2.IH"(3) [OF F1 F2 IsDir pre this pl] F1 F2 k' n IsDir show ?thesis by simp
      next
        case (IsLink t)
        with atloc have n: "cur @ [e] \<noteq> loc" by auto
        show ?thesis
        proof (cases "(rest = [] \<and> \<not> follow) \<or> fuel = 0 \<or> t = []")
          case True
          with F1 F2 IsLink res k' n show ?thesis by (auto split: if_splits)
        next
          case False
          then have c: "\<not> (rest = [] \<and> \<not> follow)" "fuel \<noteq> 0" "t \<noteq> []" by auto
          from F1 F2 IsLink res
          have "resolve r (fuel - 1) follow (if isRooted t then [] else cur) (splitPath t @ rest)
                = Inr pl"
            by (simp add: if_not_P [OF c(1)] c(2,3))
          from "2.IH"(4) [OF F1 F2 IsLink c pre this pl] F1 F2 k' n IsLink
          show ?thesis by (simp add: if_not_P [OF c(1)] c(2,3))
        qed
      qed
    qed
  qed
qed


lemma creatPlace_resolve:
  assumes "creatPlace w p = Inr loc"
  shows "p \<noteq> [] \<and> CHR 0x00 \<notin> set p \<and> isDir (root w) \<and> loc \<noteq> []
         \<and> (kindAt (root w) (butlast loc) (last loc) = Missing
              \<or> kindAt (root w) (butlast loc) (last loc) = IsFile)
         \<and> (\<exists>pl. resolve (root w) 40 True []
                     (splitPath (if isRooted p then p else cwd w @ [Separator] @ p)) = Inr pl
                \<and> namei w True p = Inr pl
                \<and> (\<forall>l s. pl = New l s \<longrightarrow> l = loc \<and> \<not> s)
                \<and> (case pl of Here l \<Rightarrow> Here l | New l s \<Rightarrow> Here loc) = Here loc)"
proof -
  from assms have ne: "\<not> endsWithSlash p"
    by (auto simp: creatPlace_def split: if_splits sum.splits)
  with assms obtain pl where n: "namei w True p = Inr pl"
    by (auto simp: creatPlace_def split: sum.splits)
  then have b: "p \<noteq> []" "CHR 0x00 \<notin> set p" "isDir (root w)"
    and r: "resolve (root w) 40 True []
              (splitPath (if isRooted p then p else cwd w @ [Separator] @ p)) = Inr pl"
    by (auto simp: namei_def split: if_splits)
  show ?thesis
  proof (cases pl)
    case (New l s)
    with assms ne n have l: "l = loc" "\<not> s"
      by (auto simp: creatPlace_def split: if_splits)
    from resolve_New [OF r [unfolded New]] l b r n New show ?thesis by auto
  next
    case (Here l)
    with assms ne n obtain old where l: "l = loc" and f: "lookupNode (root w) loc = Inr (FileNode old)"
      by (auto simp: creatPlace_def split: sum.splits node.splits)
    from b(3) f have nn: "loc \<noteq> []" by (auto simp: isDir_def)
    then have "loc = butlast loc @ [last loc]" by simp
    with f have "lookupNode (root w) (butlast loc @ [last loc]) = Inr (FileNode old)" by simp
    from lookupNode_kind [OF this] nn l b r n Here show ?thesis by auto
  qed
qed

lemma os_WriteFile_stat:
  assumes "os_WriteFile w p c = Inr w'"
  shows "os_Stat w' p = Inr (FileNode c)" and "\<exists>w''. os_WriteFile w' p c' = Inr w''"
    and "cwd w' = cwd w"
proof -
  from assms obtain loc where cp: "creatPlace w p = Inr loc"
    and w': "w' = w\<lparr>root := putNode (root w) loc (FileNode c)\<rparr>"
    by (auto simp: os_WriteFile_def split: sum.splits)
  from creatPlace_resolve [OF cp] obtain pl where
    b: "p \<noteq> []" "CHR 0x00 \<notin> set p" "isDir (root w)" "loc \<noteq> []"
    and k: "kindAt (root w) (butlast loc) (last loc) = Missing
              \<or> kindAt (root w) (butlast loc) (last loc) = IsFile"
    and r: "resolve (root w) 40 True []
              (splitPath (if isRooted p then p else cwd w @ [Separator] @ p)) = Inr pl"
    and pl: "\<forall>l s. pl = New l s \<longrightarrow> l = loc \<and> \<not> s"
    and h: "(case pl of Here l \<Rightarrow> Here l | New l s \<Rightarrow> Here loc) = Here loc"
    by blast
  from resolve_putNode [OF b(4) k r pl, of c] h
  have r': "resolve (root w') 40 True []
              (splitPath (if isRooted p then p else cwd w' @ [Separator] @ p)) = Inr (Here loc)"
    by (cases "isRooted p") (simp_all add: w')
  have d': "isDir (root w')" using putNode_isDir [OF b(3)] by (simp add: w')
  from r' d' b have n': "namei w' True p = Inr (Here loc)" by (simp add: namei_def)
  have l': "lookupNode (root w') loc = Inr (FileNode c)"
    using lookupNode_putNode [OF b(4) k] by (simp add: w')
  from n' l' show "os_Stat w' p = Inr (FileNode c)" by (simp add: os_Stat_def statAt_def)
  from cp have "\<not> endsWithSlash p" by (auto simp: creatPlace_def split: if_splits sum.splits)
  with n' l' have "creatPlace w' p = Inr loc" by (simp add: creatPlace_def)
  then show "\<exists>w''. os_WriteFile w' p c' = Inr w''" by (simp add: os_WriteFile_def)
  show "cwd w' = cwd w" by (simp add: w')
qed

lemma closeOutput_stat:
  assumes "os_WriteFile w out [] = Inr w1"
  shows "os_Stat (closeOutput L fmt w1 out tr) out = Inr (FileNode (encode L fmt (written tr)))"
proof -
  from os_WriteFile_stat(2) [OF assms] obtain w2
    where w2: "os_WriteFile w1 out (encode L fmt (written tr)) = Inr w2" by blast
  then show ?thesis using os_WriteFile_stat(1) [OF w2] by (simp add: closeOutput_def)
qed

section \<open>Compression: the statistics\<close>

lemma nodeSize_nonneg: "0 \<le> nodeSize d"
  by (simp add: nodeSize_def split: node.splits)

lemma visit_totalSize:
  "visit source excludes path d st = (a, st') \<Longrightarrow> 0 \<le> totalSize st \<Longrightarrow> 0 \<le> totalSize st'"
  using nodeSize_nonneg [of d] by (auto simp: visit_def split: if_splits)

lemma walk_totalSize:
  "(walkDir source excludes path d st = (a, st') \<longrightarrow> 0 \<le> totalSize st \<longrightarrow> 0 \<le> totalSize st')"
  "(walkEntries source excludes path es st = (a, st') \<longrightarrow> 0 \<le> totalSize st \<longrightarrow> 0 \<le> totalSize st')"
proof (induction source excludes path d st and source excludes path es st
    arbitrary: a st' and a st' rule: walkDir_walkEntries.induct)
  case (1 source excludes path c st)
  then show ?case using visit_totalSize by auto
next
  case (2 source excludes path t st)
  then show ?case using visit_totalSize by auto
next
  case (3 source excludes path es st)
  show ?case
  proof (intro impI)
    assume w: "walkDir source excludes path (DirNode es) st = (a, st')" and n: "0 \<le> totalSize st"
    obtain b st1 where v: "visit source excludes path (DirNode es) st = (b, st1)"
      by (cases "visit source excludes path (DirNode es) st")
    from visit_totalSize [OF v n] have n1: "0 \<le> totalSize st1" .
    show "0 \<le> totalSize st'"
    proof (cases b)
      case WalkNil
      with w v have "walkEntries source excludes path es st1 = (a, st')" by simp
      with "3.IH" [OF v [symmetric] WalkNil] n1 show ?thesis by blast
    next
      case WalkSkipDir
      with w v n1 show ?thesis by auto
    next
      case (WalkErr e)
      with w v n1 show ?thesis by auto
    qed
  qed
next
  case (4 source excludes path st)
  then show ?case by auto
next
  case (5 source excludes path name d1 rest st)
  show ?case
  proof (intro impI)
    assume w: "walkEntries source excludes path ((name, d1) # rest) st = (a, st')"
      and n: "0 \<le> totalSize st"
    obtain b st1 where v: "walkDir source excludes (Join [path, name]) d1 st = (b, st1)"
      by (cases "walkDir source excludes (Join [path, name]) d1 st")
    from "5.IH"(1) v n have n1: "0 \<le> totalSize st1" by blast
    show "0 \<le> totalSize st'"
    proof (cases b)
      case WalkNil
      with w v have "walkEntries source excludes path rest st1 = (a, st')" by simp
      with "5.IH"(2) [OF v [symmetric] WalkNil] n1 show ?thesis by blast
    next
      case WalkSkipDir
      with w v n1 show ?thesis by auto
    next
      case (WalkErr e)
      with w v n1 show ?thesis by auto
    qed
  qed
qed

lemma walkChild_totalSize:
  assumes "walkChild w source excludes path d st = (a, st')" and "0 \<le> totalSize st"
  shows "0 \<le> totalSize st'"
proof -
  obtain b st1 where v: "visit source excludes path d st = (b, st1)"
    by (cases "visit source excludes path d st")
  from visit_totalSize [OF v assms(2)] have n1: "0 \<le> totalSize st1" .
  show ?thesis
  proof (cases "b = WalkNil \<and> isDir d")
    case False
    with assms(1) v n1 show ?thesis
      by (cases b) (auto simp: walkChild_def split: if_splits)
  next
    case True
    show ?thesis
    proof (cases "os_ReadDir w path")
      case (Inl e)
      with assms(1) v n1 True show ?thesis by (auto simp: walkChild_def)
    next
      case (Inr es1)
      with assms(1) v True have "walkEntries source excludes path es1 st1 = (a, st')"
        by (auto simp: walkChild_def)
      with walk_totalSize(2) n1 show ?thesis by blast
    qed
  qed
qed

lemma walkTop_totalSize:
  "walkTop w source excludes root1 es st = (a, st') \<Longrightarrow> 0 \<le> totalSize st \<Longrightarrow> 0 \<le> totalSize st'"
proof (induction es arbitrary: st)
  case Nil
  then show ?case by simp
next
  case (Cons entry es)
  obtain name d1 where en: "entry = (name, d1)" by (cases entry)
  obtain b st1 where v: "walkChild w source excludes (Join [root1, name]) d1 st = (b, st1)"
    by (cases "walkChild w source excludes (Join [root1, name]) d1 st")
  from walkChild_totalSize [OF v Cons.prems(2)] have n1: "0 \<le> totalSize st1" .
  show ?case
  proof (cases b)
    case WalkNil
    with Cons.prems(1) en v have "walkTop w source excludes root1 es st1 = (a, st')" by simp
    from Cons.IH [OF this n1] show ?thesis .
  next
    case WalkSkipDir
    with Cons.prems(1) en v n1 show ?thesis by auto
  next
    case (WalkErr e)
    with Cons.prems(1) en v n1 show ?thesis by auto
  qed
qed

lemma WalkDir_totalSize:
  assumes "WalkDir w source excludes st = (r, st')" and "0 \<le> totalSize st"
  shows "0 \<le> totalSize st'"
proof (cases "os_Lstat w source")
  case (Inl e)
  with assms show ?thesis by (simp add: WalkDir_def)
next
  case (Inr d)
  obtain b st1 where v: "visit source excludes source d st = (b, st1)"
    by (cases "visit source excludes source d st")
  from visit_totalSize [OF v assms(2)] have n1: "0 \<le> totalSize st1" .
  show ?thesis
  proof (cases "\<exists>es. b = WalkNil \<and> d = DirNode es")
    case False
    with assms(1) Inr v n1 show ?thesis
      by (cases b; cases d) (auto simp: WalkDir_def)
  next
    case True
    then obtain es where b: "b = WalkNil" and d: "d = DirNode es" by blast
    obtain b2 st2 where t: "walkTop w source excludes source es st1 = (b2, st2)"
      by (cases "walkTop w source excludes source es st1")
    from walkTop_totalSize [OF t n1] have "0 \<le> totalSize st2" .
    with assms(1) Inr v b d t show ?thesis
      by (cases b2) (auto simp: WalkDir_def)
  qed
qed

lemma collectFiles_totalSize: "collectFiles w source excludes = Inr c \<Longrightarrow> 0 \<le> totalSize c"
proof -
  assume a: "collectFiles w source excludes = Inr c"
  obtain n where st: "os_Stat w source = Inr n"
    using a by (cases "os_Stat w source") (auto simp: collectFiles_def)
  show ?thesis
  proof (cases "isDir n")
    case False
    with a st show ?thesis using nodeSize_nonneg [of n] by (auto simp: collectFiles_def)
  next
    case True
    let ?z = "\<lparr>files = [], totalSize = 0, excludedCount = 0\<rparr>"
    from a st True have wd: "WalkDir w source excludes ?z = (None, c)"
      by (auto simp: collectFiles_def split: prod.splits option.splits)
    from WalkDir_totalSize [OF wd] show ?thesis by simp
  qed
qed

lemma zipLoop_totals:
  "zipLoop L ctx w opts n i fl s = (r, s') \<Longrightarrow> sameTotals (stats s') (stats s)"
proof (induction fl arbitrary: i s)
  case Nil
  then show ?case by (simp add: sameTotals_def)
next
  case (Cons f rest)
  show ?case
  proof (cases "ctx i")
    case True
    with Cons.prems show ?thesis by (simp add: sameTotals_def)
  next
    case False
    let ?rel = "relPathOf (Dir (Source opts)) f"
    let ?st = "(stats s)\<lparr>ProcessedFiles := int i + 1, CurrentFile := ?rel\<rparr>"
    let ?s1 = "s\<lparr>stats := ?st, trace := trace s @ report opts (int i + 1) n ?rel ?st\<rparr>"
    show ?thesis
    proof (cases "addFileToZip L w f ?rel")
      case None
      with False Cons.prems have "s' = ?s1" by (simp add: Let_def)
      then show ?thesis by (simp add: sameTotals_def)
    next
      case (Some e)
      with False Cons.prems
      have "zipLoop L ctx w opts n (Suc i) rest (?s1\<lparr>trace := trace ?s1 @ [Wrote e]\<rparr>) = (r, s')"
        by (simp add: Let_def)
      from Cons.IH [OF this] show ?thesis by (simp add: sameTotals_def)
    qed
  qed
qed

lemma zipLoop_processed:
  "zipLoop L ctx w opts n i fl s = (None, s') \<Longrightarrow> fl \<noteq> [] \<Longrightarrow>
   ProcessedFiles (stats s') = int i + int (length fl)"
proof (induction fl arbitrary: i s)
  case Nil
  then show ?case by simp
next
  case (Cons f rest)
  let ?rel = "relPathOf (Dir (Source opts)) f"
  let ?st = "(stats s)\<lparr>ProcessedFiles := int i + 1, CurrentFile := ?rel\<rparr>"
  let ?s1 = "s\<lparr>stats := ?st, trace := trace s @ report opts (int i + 1) n ?rel ?st\<rparr>"
  from Cons.prems(1) have nc: "\<not> ctx i" by (auto split: if_splits)
  with Cons.prems(1) obtain e where
    lp: "zipLoop L ctx w opts n (Suc i) rest (?s1\<lparr>trace := trace ?s1 @ [Wrote e]\<rparr>) = (None, s')"
    by (auto simp: Let_def split: option.splits)
  show ?case
  proof (cases "rest = []")
    case True
    with lp show ?thesis by auto
  next
    case False
    from Cons.IH [OF lp False] show ?thesis by simp
  qed
qed

lemma tarLoop_totals:
  "tarLoop L fmt ctx w opts n i fl s = (r, s') \<Longrightarrow> sameTotals (stats s') (stats s)"
proof (induction fl arbitrary: i s)
  case Nil
  then show ?case by (simp add: sameTotals_def)
next
  case (Cons f rest)
  show ?case
  proof (cases "ctx i")
    case True
    with Cons.prems show ?thesis by (simp add: sameTotals_def)
  next
    case False
    let ?rel = "relPathOf (Dir (Source opts)) f"
    let ?st = "(stats s)\<lparr>ProcessedFiles := int i + 1, CurrentFile := ?rel\<rparr>"
    let ?s1 = "s\<lparr>stats := ?st, trace := trace s @ report opts (int i + 1) n ?rel ?st\<rparr>"
    show ?thesis
    proof (cases "addFileToTar L fmt w f ?rel")
      case None
      with False Cons.prems have "s' = ?s1" by (simp add: Let_def)
      then show ?thesis by (simp add: sameTotals_def)
    next
      case (Some e)
      with False Cons.prems
      have "tarLoop L fmt ctx w opts n (Suc i) rest (?s1\<lparr>trace := trace ?s1 @ [Wrote e]\<rparr>) = (r, s')"
        by (simp add: Let_def)
      from Cons.IH [OF this] show ?thesis by (simp add: sameTotals_def)
    qed
  qed
qed

lemma tarLoop_processed:
  "tarLoop L fmt ctx w opts n i fl s = (None, s') \<Longrightarrow> fl \<noteq> [] \<Longrightarrow>
   ProcessedFiles (stats s') = int i + int (length fl)"
proof (induction fl arbitrary: i s)
  case Nil
  then show ?case by simp
next
  case (Cons f rest)
  let ?rel = "relPathOf (Dir (Source opts)) f"
  let ?st = "(stats s)\<lparr>ProcessedFiles := int i + 1, CurrentFile := ?rel\<rparr>"
  let ?s1 = "s\<lparr>stats := ?st, trace := trace s @ report opts (int i + 1) n ?rel ?st\<rparr>"
  from Cons.prems(1) have nc: "\<not> ctx i" by (auto split: if_splits)
  with Cons.prems(1) obtain e where
    lp: "tarLoop L fmt ctx w opts n (Suc i) rest (?s1\<lparr>trace := trace ?s1 @ [Wrote e]\<rparr>) = (None, s')"
    by (auto simp: Let_def split: option.splits)
  show ?case
  proof (cases "rest = []")
    case True
    with lp show ?thesis by auto
  next
    case False
    from Cons.IH [OF lp False] show ?thesis by simp
  qed
qed


lemma compressZip_done: "fl \<noteq> [] \<Longrightarrow> adapterDone (compressZip L ctx fl opts w s) opts fl s"
proof -
  assume ne: "fl \<noteq> []"
  show ?thesis
  proof (cases "os_WriteFile w (Output opts) []")
    case (Inl e)
    then show ?thesis by (simp add: adapterDone_def compressZip_def)
  next
    case (Inr w1)
    obtain err s' where lp: "zipLoop L ctx w1 opts (int (length fl)) 0 fl s = (err, s')"
      by (cases "zipLoop L ctx w1 opts (int (length fl)) 0 fl s")
    from zipLoop_totals [OF lp] have t: "sameTotals (stats s') (stats s)" .
    have p: "err = None \<Longrightarrow> ProcessedFiles (stats s') = int (length fl)"
      using zipLoop_processed [of L ctx w1 opts "int (length fl)" 0 fl s s'] lp ne by simp
    from closeOutput_stat [OF Inr] t p Inr lp show ?thesis
      by (auto simp: adapterDone_def compressZip_def)
  qed
qed

lemma compressTarPlain_done:
  "fl \<noteq> [] \<Longrightarrow> adapterDone (compressTarPlain L fmt ctx fl opts w s) opts fl s"
proof -
  assume ne: "fl \<noteq> []"
  show ?thesis
  proof (cases "os_WriteFile w (Output opts) []")
    case (Inl e)
    then show ?thesis by (simp add: adapterDone_def compressTarPlain_def compressTar_def)
  next
    case (Inr w1)
    obtain err s' where lp: "tarLoop L fmt ctx w1 opts (int (length fl)) 0 fl s = (err, s')"
      by (cases "tarLoop L fmt ctx w1 opts (int (length fl)) 0 fl s")
    from tarLoop_totals [OF lp] have t: "sameTotals (stats s') (stats s)" .
    have p: "err = None \<Longrightarrow> ProcessedFiles (stats s') = int (length fl)"
      using tarLoop_processed [of L fmt ctx w1 opts "int (length fl)" 0 fl s s'] lp ne by simp
    from closeOutput_stat [OF Inr] t p Inr lp show ?thesis
      by (auto simp: adapterDone_def compressTarPlain_def compressTar_def)
  qed
qed

lemma compressTarChecked_done:
  "fl \<noteq> [] \<Longrightarrow> adapterDone (compressTarChecked L fmt ctx fl opts w s) opts fl s"
proof -
  assume ne: "fl \<noteq> []"
  show ?thesis
  proof (cases "os_WriteFile w (Output opts) []")
    case (Inl e)
    then show ?thesis by (simp add: adapterDone_def compressTarChecked_def compressTar_def)
  next
    case (Inr w1)
    obtain err s' where lp: "tarLoop L fmt ctx w1 opts (int (length fl)) 0 fl s = (err, s')"
      by (cases "tarLoop L fmt ctx w1 opts (int (length fl)) 0 fl s")
    from tarLoop_totals [OF lp] have t: "sameTotals (stats s') (stats s)" .
    have p: "err = None \<Longrightarrow> ProcessedFiles (stats s') = int (length fl)"
      using tarLoop_processed [of L fmt ctx w1 opts "int (length fl)" 0 fl s s'] lp ne by simp
    from closeOutput_stat [OF Inr] t p Inr lp show ?thesis
      by (auto simp: adapterDone_def compressTarChecked_def compressTar_def)
  qed
qed

lemma finishCompress_settled:
  assumes d: "adapterDone r opts fl s"
    and e: "cErr (finishCompress opts r) = None"
    and i: "TotalFiles (stats s) = int (length fl)" "0 \<le> TotalSize (stats s)"
      "CompressionRate (stats s) = 0"
  shows "\<exists>st out. cStats (finishCompress opts r) = Some st
           \<and> os_Stat (cFs (finishCompress opts r)) (Output opts) = Inr (FileNode out)
           \<and> statsSettled st out"
proof -
  obtain err w' s' where r: "r = (err, w', s')" by (cases r)
  from e r have err: "err = None" by (cases err) (simp_all add: finishCompress_def)
  from d r err obtain out where p: "ProcessedFiles (stats s') = int (length fl)"
    and t: "sameTotals (stats s') (stats s)" and st: "os_Stat w' (Output opts) = Inr (FileNode out)"
    by (auto simp: adapterDone_def)
  note o = st
  from t i p have f: "TotalFiles (stats s') = ProcessedFiles (stats s')"
    "0 \<le> TotalSize (stats s')" "CompressionRate (stats s') = 0"
    by (simp_all add: sameTotals_def)
  show ?thesis
  proof (cases "TotalSize (stats s') > 0")
    case True
    with r err st o f show ?thesis
      by (simp add: finishCompress_def statsSettled_def nodeSize_def Let_def)
  next
    case False
    with f have "TotalSize (stats s') = 0" by simp
    with r err st o f show ?thesis
      by (simp add: finishCompress_def statsSettled_def nodeSize_def Let_def)
  qed
qed

text \<open>
  C7. When \<open>Compress\<close> returns no error, it returns statistics in which the processed
  files are all the files, the compressed size is the length of the file that is at the
  output once the writers are closed, and the compression rate is
  \<open>(TotalSize - CompressedSize) / TotalSize * 100\<close>, and 0 when the total size is 0.
\<close>

theorem C7_stats_of_success:
  assumes "cErr (Compress L ctx opts w) = None"
  shows "\<exists>st out. cStats (Compress L ctx opts w) = Some st
           \<and> os_Stat (cFs (Compress L ctx opts w)) (Output opts) = Inr (FileNode out)
           \<and> ProcessedFiles st = TotalFiles st
           \<and> CompressedSize st = int (length out)
           \<and> CompressionRate st =
               (if TotalSize st = 0 then 0
                else fmul (fdiv (float64 (TotalSize st - CompressedSize st))
                                (float64 (TotalSize st)))
                          (float64 100))"
proof -
  from assms obtain n where st: "os_Stat w (Source opts) = Inr n"
    by (cases "os_Stat w (Source opts)") (auto simp: Compress_defs)
  from assms st obtain c where cf: "collectFiles w (Source opts) (Excludes opts) = Inr c"
    by (cases "collectFiles w (Source opts) (Excludes opts)") (auto simp: Compress_defs)
  let ?s = "\<lparr>stats = zeroCompressStats\<lparr>TotalFiles := int (length (files c)),
      TotalSize := totalSize c, ExcludedFiles := excludedCount c\<rparr>, trace = []\<rparr>"
  from assms st cf have ne: "files c \<noteq> []"
    by (auto simp: Compress_defs Let_def)
  have i: "TotalFiles (stats ?s) = int (length (files c))" "0 \<le> TotalSize (stats ?s)"
    "CompressionRate (stats ?s) = 0"
    using collectFiles_totalSize [OF cf] by (simp_all add: zeroCompressStats_def)
  have fin: "\<exists>st out. cStats (finishCompress opts r) = Some st
           \<and> os_Stat (cFs (finishCompress opts r)) (Output opts) = Inr (FileNode out)
           \<and> statsSettled st out"
    if "adapterDone r opts (files c) ?s" and "cErr (finishCompress opts r) = None" for r
    using finishCompress_settled [OF that i] .
  have "\<exists>st out. cStats (Compress L ctx opts w) = Some st
           \<and> os_Stat (cFs (Compress L ctx opts w)) (Output opts) = Inr (FileNode out)
           \<and> statsSettled st out"
  proof -
    consider (zip) "Format opts = ''.zip''" | (gz) "Format opts = ''.tar.gz''"
      | (bz2) "Format opts = ''.tar.bz2''" | (xz) "Format opts = ''.tar.xz''"
      | (zst) "Format opts = ''.tar.zst''" | (lz4) "Format opts = ''.tar.lz4''"
      | (other) "Format opts \<notin> {''.zip'', ''.tar.gz'', ''.tar.bz2'', ''.tar.xz'', ''.tar.zst'', ''.tar.lz4''}"
      by blast
    then show ?thesis
    proof cases
      case zip
      with st cf ne have eq: "Compress L ctx opts w
          = finishCompress opts (compressZip L ctx (files c) opts w ?s)"
        by (simp add: Compress_defs Let_def)
      from fin [OF compressZip_done [OF ne]] assms eq show ?thesis by simp
    next
      case gz
      with st cf ne have eq: "Compress L ctx opts w
          = finishCompress opts (compressTarPlain L ''.tar.gz'' ctx (files c) opts w ?s)"
        by (simp add: Compress_defs Let_def)
      from fin [OF compressTarPlain_done [OF ne]] assms eq show ?thesis by simp
    next
      case bz2
      with st cf ne have eq: "Compress L ctx opts w
          = finishCompress opts (compressTarChecked L ''.tar.bz2'' ctx (files c) opts w ?s)"
        by (simp add: Compress_defs Let_def)
      from fin [OF compressTarChecked_done [OF ne]] assms eq show ?thesis by simp
    next
      case xz
      with st cf ne have eq: "Compress L ctx opts w
          = finishCompress opts (compressTarChecked L ''.tar.xz'' ctx (files c) opts w ?s)"
        by (simp add: Compress_defs Let_def)
      from fin [OF compressTarChecked_done [OF ne]] assms eq show ?thesis by simp
    next
      case zst
      with st cf ne have eq: "Compress L ctx opts w
          = finishCompress opts (compressTarChecked L ''.tar.zst'' ctx (files c) opts w ?s)"
        by (simp add: Compress_defs Let_def)
      from fin [OF compressTarChecked_done [OF ne]] assms eq show ?thesis by simp
    next
      case lz4
      with st cf ne have eq: "Compress L ctx opts w
          = finishCompress opts (compressTarPlain L ''.tar.lz4'' ctx (files c) opts w ?s)"
        by (simp add: Compress_defs Let_def)
      from fin [OF compressTarPlain_done [OF ne]] assms eq show ?thesis by simp
    next
      case other
      with st cf ne have "cErr (Compress L ctx opts w) = Some (UnsupportedFormat (Format opts))"
        by (simp add: Compress_defs Let_def)
      with assms show ?thesis by simp
    qed
  qed
  then show ?thesis by (auto simp: statsSettled_def)
qed


theorem C7_stats_of_success_witness:
  "cErr (Compress demoCodecs noCancel zipOpts demoFs) = None
   \<and> (\<exists>st out. cStats (Compress demoCodecs noCancel zipOpts demoFs) = Some st
           \<and> os_Stat (cFs (Compress demoCodecs noCancel zipOpts demoFs)) (Output zipOpts)
               = Inr (FileNode out)
           \<and> ProcessedFiles st = TotalFiles st
           \<and> CompressedSize st = int (length out)
           \<and> CompressionRate st =
               (if TotalSize st = 0 then 0
                else fmul (fdiv (float64 (TotalSize st - CompressedSize st))
                                (float64 (TotalSize st)))
                          (float64 100)))"
proof -
  have ok: "cErr (Compress demoCodecs noCancel zipOpts demoFs) = None" by code_simp
  from C7_stats_of_success [OF ok] ok show ?thesis by blast
qed

section \<open>Errors and statistics\<close>

lemma finishCompress_err: "cErr (finishCompress opts r) \<noteq> None \<Longrightarrow> cStats (finishCompress opts r) = None"
  by (auto simp: finishCompress_def Let_def split: prod.splits option.splits)

lemma finishExtract_err: "xrErr (finishExtract r) \<noteq> None \<Longrightarrow> xrStats (finishExtract r) = None"
  by (auto simp: finishExtract_def split: prod.splits option.splits)

lemma Compress_err: "cErr (Compress L ctx opts w) \<noteq> None \<Longrightarrow> cStats (Compress L ctx opts w) = None"
  by (auto simp: Compress_defs Let_def finishCompress_err split: sum.splits)

lemma Extract_err: "xrErr (Extract L ctx opts w) \<noteq> None \<Longrightarrow> xrStats (Extract L ctx opts w) = None"
  by (auto simp: Extract_defs Let_def finishExtract_err split: sum.splits)

text \<open>
  C10. Whenever \<open>Compress\<close> or \<open>Extract\<close> returns an error, the statistics it returns are
  \<open>nil\<close>: the counts gathered up to the failure do not reach the caller.
\<close>

theorem C10_no_stats_with_an_error:
  "(cErr (Compress L ctx copts w) \<noteq> None \<longrightarrow> cStats (Compress L ctx copts w) = None)
   \<and> (xrErr (Extract L ctx xopts w) \<noteq> None \<longrightarrow> xrStats (Extract L ctx xopts w) = None)"
  using Compress_err Extract_err by blast


theorem C10_no_stats_with_an_error_witness:
  "cErr (Compress demoCodecs noCancel (zipOpts\<lparr>Source := ''/nope''\<rparr>) demoFs)
     = Some (SourceNotFound ENOENT)
   \<and> cStats (Compress demoCodecs noCancel (zipOpts\<lparr>Source := ''/nope''\<rparr>) demoFs) = None
   \<and> cErr (Compress demoCodecs (cancelAt 2) (zipOpts\<lparr>Excludes := []\<rparr>) demoFs) = Some Cancelled
   \<and> cStats (Compress demoCodecs (cancelAt 2) (zipOpts\<lparr>Excludes := []\<rparr>) demoFs) = None
   \<and> xrErr (Extract clashCodecs noCancel slipOpts demoFs) = Some (MkParentFailed ENOTDIR)
   \<and> xrStats (Extract clashCodecs noCancel slipOpts demoFs) = None"
proof -
  have e1: "cErr (Compress demoCodecs noCancel (zipOpts\<lparr>Source := ''/nope''\<rparr>) demoFs)
      = Some (SourceNotFound ENOENT)" by code_simp
  have e2: "cErr (Compress demoCodecs (cancelAt 2) (zipOpts\<lparr>Excludes := []\<rparr>) demoFs)
      = Some Cancelled" by code_simp
  have e3: "xrErr (Extract clashCodecs noCancel slipOpts demoFs) = Some (MkParentFailed ENOTDIR)"
    by code_simp
  from C10_no_stats_with_an_error [of demoCodecs noCancel "zipOpts\<lparr>Source := ''/nope''\<rparr>" demoFs slipOpts] e1
  have s1: "cStats (Compress demoCodecs noCancel (zipOpts\<lparr>Source := ''/nope''\<rparr>) demoFs) = None"
    by simp
  from C10_no_stats_with_an_error [of demoCodecs "cancelAt 2" "zipOpts\<lparr>Excludes := []\<rparr>" demoFs slipOpts] e2
  have s2: "cStats (Compress demoCodecs (cancelAt 2) (zipOpts\<lparr>Excludes := []\<rparr>) demoFs) = None"
    by simp
  from C10_no_stats_with_an_error [of clashCodecs noCancel zipOpts demoFs slipOpts] e3
  have s3: "xrStats (Extract clashCodecs noCancel slipOpts demoFs) = None"
    by simp
  from e1 s1 e2 s2 e3 s3 show ?thesis by blast
qed

section \<open>Cancellation\<close>











lemma zipEntryBody_ProcessedFiles:
  "zipEntryBody opts f s1 = (r, s2) \<Longrightarrow> ProcessedFiles (xStats s2) = ProcessedFiles (xStats s1)"
  by (auto simp: zipEntryBody_def Let_def split: if_splits sum.splits prod.splits bool.splits)

lemma tarEntryBody_ProcessedFiles:
  "tarEntryBody opts header body copyFails s1 = (r, s2) \<Longrightarrow>
   ProcessedFiles (xStats s2) = ProcessedFiles (xStats s1)"
  by (auto simp: tarEntryBody_def Let_def split: if_splits typeflag.splits sum.splits)









section \<open>The order of the reports\<close>

lemma doneCount_append: "doneCount (tr @ tr') = doneCount tr + doneCount tr'"
  by (simp add: doneCount_def)

lemma snapshotNumbers_append: "snapshotNumbers (tr @ tr') = snapshotNumbers tr @ snapshotNumbers tr'"
  by (simp add: snapshotNumbers_def)

lemma reportedBefore_append:
  "reportedBefore k (tr @ tr') \<longleftrightarrow> reportedBefore k tr \<and> reportedBefore (k + doneCount tr) tr'"
proof (induction tr arbitrary: k)
  case Nil
  show ?case by (simp add: doneCount_def)
next
  case (Cons ev tr)
  show ?case
  proof (cases "entryNumber ev")
    case None
    with Cons [of "if isDone ev then Suc k else k"] show ?thesis
      by (simp add: doneCount_def)
  next
    case (Some c)
    then have "\<not> isDone ev" by (cases ev) (simp_all add: entryNumber_def isDone_def)
    with Some Cons [of k] show ?thesis by (auto simp: doneCount_def)
  qed
qed

lemma ordered_mono: "ordered d p tr \<Longrightarrow> d \<le> d' \<Longrightarrow> ordered d' p tr"
  by (simp add: ordered_def)

lemma ordered_done:
  "ordered d p tr \<Longrightarrow> isDone ev \<Longrightarrow> ordered (Suc d) p (tr @ [ev])"
  by (cases ev)
    (simp_all add: ordered_def reportedBefore_append doneCount_append snapshotNumbers_append
      isDone_def entryNumber_def doneCount_def snapshotNumbers_def)

lemma ordered_report:
  assumes o: "ordered d p tr" and p: "p \<le> int d" and st: "ProcessedFiles st = int d + 1"
  shows "ordered d (int d + 1) (tr @ report opts (int d + 1) n name st)"
proof -
  let ?rep = "report opts (int d + 1) n name st"
  have dc: "doneCount ?rep = 0" by (simp add: report_def doneCount_def isDone_def)
  have rb: "reportedBefore (0 + doneCount tr) ?rep"
    using o st by (simp add: report_def entryNumber_def isDone_def ordered_def)
  have sn: "set (snapshotNumbers ?rep) \<subseteq> {int d + 1}" "sorted_wrt (<) (snapshotNumbers ?rep)"
    using st by (simp_all add: report_def snapshotNumbers_def)
  have old: "\<forall>c\<in>set (snapshotNumbers tr). c < int d + 1" using o p by (auto simp: ordered_def)
  show ?thesis
    unfolding ordered_def
  proof (intro conjI)
    show "reportedBefore 0 (tr @ ?rep)" using o rb by (simp add: reportedBefore_append ordered_def)
    show "doneCount (tr @ ?rep) \<le> d" using o dc by (simp add: doneCount_append ordered_def)
    show "\<forall>c\<in>set (snapshotNumbers (tr @ ?rep)). c \<le> int d + 1"
      using old sn(1) by (auto simp: snapshotNumbers_append)
    show "sorted_wrt (<) (snapshotNumbers (tr @ ?rep))"
      using o old sn by (auto simp: snapshotNumbers_append sorted_wrt_append ordered_def)
  qed
qed

lemma ordered_reportX:
  assumes o: "ordered d p tr" and p: "p \<le> int d" and st: "ProcessedFiles st = int d + 1"
  shows "ordered d (int d + 1) (tr @ reportX opts (int d + 1) n name st)"
proof -
  let ?rep = "reportX opts (int d + 1) n name st"
  have dc: "doneCount ?rep = 0" by (simp add: reportX_def doneCount_def isDone_def)
  have rb: "reportedBefore (0 + doneCount tr) ?rep"
    using o st by (simp add: reportX_def entryNumber_def isDone_def ordered_def)
  have sn: "set (snapshotNumbers ?rep) \<subseteq> {int d + 1}" "sorted_wrt (<) (snapshotNumbers ?rep)"
    using st by (simp_all add: reportX_def snapshotNumbers_def)
  have old: "\<forall>c\<in>set (snapshotNumbers tr). c < int d + 1" using o p by (auto simp: ordered_def)
  show ?thesis
    unfolding ordered_def
  proof (intro conjI)
    show "reportedBefore 0 (tr @ ?rep)" using o rb by (simp add: reportedBefore_append ordered_def)
    show "doneCount (tr @ ?rep) \<le> d" using o dc by (simp add: doneCount_append ordered_def)
    show "\<forall>c\<in>set (snapshotNumbers (tr @ ?rep)). c \<le> int d + 1"
      using old sn(1) by (auto simp: snapshotNumbers_append)
    show "sorted_wrt (<) (snapshotNumbers (tr @ ?rep))"
      using o old sn by (auto simp: snapshotNumbers_append sorted_wrt_append ordered_def)
  qed
qed

lemma zipLoop_ordered:
  "ordered i (ProcessedFiles (stats s)) (trace s) \<Longrightarrow> ProcessedFiles (stats s) \<le> int i \<Longrightarrow>
   zipLoop L ctx w opts n i fl s = (r, s') \<Longrightarrow>
   \<exists>j. ordered j (ProcessedFiles (stats s')) (trace s')"
proof (induction fl arbitrary: i s)
  case Nil
  then show ?case by auto
next
  case (Cons f rest)
  show ?case
  proof (cases "ctx i")
    case True
    with Cons.prems show ?thesis by auto
  next
    case False
    let ?rel = "relPathOf (Dir (Source opts)) f"
    let ?st = "(stats s)\<lparr>ProcessedFiles := int i + 1, CurrentFile := ?rel\<rparr>"
    let ?s1 = "s\<lparr>stats := ?st, trace := trace s @ report opts (int i + 1) n ?rel ?st\<rparr>"
    have o1: "ordered i (int i + 1) (trace ?s1)"
      using ordered_report [OF Cons.prems(1,2), of ?st opts n ?rel] by simp
    show ?thesis
    proof (cases "addFileToZip L w f ?rel")
      case None
      with False Cons.prems(3) have "s' = ?s1" by (simp add: Let_def)
      with o1 show ?thesis by auto
    next
      case (Some e)
      let ?s2 = "?s1\<lparr>trace := trace ?s1 @ [Wrote e]\<rparr>"
      from Some False Cons.prems(3)
      have lp: "zipLoop L ctx w opts n (Suc i) rest ?s2 = (r, s')" by (simp add: Let_def)
      have "ordered (Suc i) (ProcessedFiles (stats ?s2)) (trace ?s2)"
        using ordered_done [OF o1, of "Wrote e"] by (simp add: isDone_def)
      moreover have "ProcessedFiles (stats ?s2) \<le> int (Suc i)" by simp
      ultimately show ?thesis using Cons.IH [OF _ _ lp] by blast
    qed
  qed
qed

lemma tarLoop_ordered:
  "ordered i (ProcessedFiles (stats s)) (trace s) \<Longrightarrow> ProcessedFiles (stats s) \<le> int i \<Longrightarrow>
   tarLoop L fmt ctx w opts n i fl s = (r, s') \<Longrightarrow>
   \<exists>j. ordered j (ProcessedFiles (stats s')) (trace s')"
proof (induction fl arbitrary: i s)
  case Nil
  then show ?case by auto
next
  case (Cons f rest)
  show ?case
  proof (cases "ctx i")
    case True
    with Cons.prems show ?thesis by auto
  next
    case False
    let ?rel = "relPathOf (Dir (Source opts)) f"
    let ?st = "(stats s)\<lparr>ProcessedFiles := int i + 1, CurrentFile := ?rel\<rparr>"
    let ?s1 = "s\<lparr>stats := ?st, trace := trace s @ report opts (int i + 1) n ?rel ?st\<rparr>"
    have o1: "ordered i (int i + 1) (trace ?s1)"
      using ordered_report [OF Cons.prems(1,2), of ?st opts n ?rel] by simp
    show ?thesis
    proof (cases "addFileToTar L fmt w f ?rel")
      case None
      with False Cons.prems(3) have "s' = ?s1" by (simp add: Let_def)
      with o1 show ?thesis by auto
    next
      case (Some e)
      let ?s2 = "?s1\<lparr>trace := trace ?s1 @ [Wrote e]\<rparr>"
      from Some False Cons.prems(3)
      have lp: "tarLoop L fmt ctx w opts n (Suc i) rest ?s2 = (r, s')" by (simp add: Let_def)
      have "ordered (Suc i) (ProcessedFiles (stats ?s2)) (trace ?s2)"
        using ordered_done [OF o1, of "Wrote e"] by (simp add: isDone_def)
      moreover have "ProcessedFiles (stats ?s2) \<le> int (Suc i)" by simp
      ultimately show ?thesis using Cons.IH [OF _ _ lp] by blast
    qed
  qed
qed

lemma zipEntryBody_ordered:
  assumes "zipEntryBody opts f s1 = (r, s2)" and "ordered i p (xTrace s1)"
  shows "ordered (Suc i) p (xTrace s2)"
proof -
  have d: "isDone (Materialized t)" for t by (simp add: isDone_def)
  from assms(1) have "xTrace s2 = xTrace s1 \<or> (\<exists>t. xTrace s2 = xTrace s1 @ [Materialized t])"
    by (auto simp: zipEntryBody_def Let_def split: if_splits sum.splits prod.splits bool.splits)
  then show ?thesis
    using ordered_mono [OF assms(2), of "Suc i"] ordered_done [OF assms(2) d] by auto
qed

lemma tarEntryBody_ordered:
  assumes "tarEntryBody opts header body copyFails s1 = (r, s2)" and "ordered i p (xTrace s1)"
  shows "ordered (Suc i) p (xTrace s2)"
proof -
  have d: "isDone (Materialized t)" for t by (simp add: isDone_def)
  from assms(1) have "xTrace s2 = xTrace s1 \<or> (\<exists>t. xTrace s2 = xTrace s1 @ [Materialized t])"
    by (auto simp: tarEntryBody_def Let_def split: if_splits typeflag.splits sum.splits)
  then show ?thesis
    using ordered_mono [OF assms(2), of "Suc i"] ordered_done [OF assms(2) d] by auto
qed

lemma unzipLoop_ordered:
  "ordered i (ProcessedFiles (xStats s)) (xTrace s) \<Longrightarrow> ProcessedFiles (xStats s) \<le> int i \<Longrightarrow>
   unzipLoop ctx opts n i fl s = (r, s') \<Longrightarrow>
   \<exists>j. ordered j (ProcessedFiles (xStats s')) (xTrace s')"
proof (induction fl arbitrary: i s)
  case Nil
  then show ?case by auto
next
  case (Cons f rest)
  show ?case
  proof (cases "ctx i")
    case True
    with Cons.prems show ?thesis by auto
  next
    case False
    let ?st = "(xStats s)\<lparr>ProcessedFiles := int i + 1, CurrentFile := zfName f\<rparr>"
    let ?s1 = "s\<lparr>xStats := ?st, xTrace := xTrace s @ reportX opts (int i + 1) n (zfName f) ?st\<rparr>"
    have o1: "ordered i (int i + 1) (xTrace ?s1)"
      using ordered_reportX [OF Cons.prems(1,2), of ?st opts n "zfName f"] by simp
    obtain e s2 where b: "zipEntryBody opts f ?s1 = (e, s2)"
      by (cases "zipEntryBody opts f ?s1")
    from zipEntryBody_ordered [OF b o1] zipEntryBody_ProcessedFiles [OF b]
    have o2: "ordered (Suc i) (ProcessedFiles (xStats s2)) (xTrace s2)"
      and p2: "ProcessedFiles (xStats s2) \<le> int (Suc i)" by simp_all
    show ?thesis
    proof (cases e)
      case None
      with False b Cons.prems(3) have "unzipLoop ctx opts n (Suc i) rest s2 = (r, s')"
        by (simp add: Let_def)
      from Cons.IH [OF o2 p2 this] show ?thesis .
    next
      case (Some err)
      with False b Cons.prems(3) have "s' = s2" by (simp add: Let_def)
      with o2 show ?thesis by blast
    qed
  qed
qed

lemma untarLoop_ordered:
  "ordered fc (ProcessedFiles (xStats s)) (xTrace s) \<Longrightarrow> ProcessedFiles (xStats s) \<le> int fc \<Longrightarrow>
   untarLoop ctx opts fc items s = (r, s') \<Longrightarrow>
   \<exists>j. ordered j (ProcessedFiles (xStats s')) (xTrace s')"
proof (induction items arbitrary: fc s)
  case Nil
  then show ?case by (auto split: if_splits)
next
  case (Cons it rest)
  show ?case
  proof (cases "ctx fc")
    case True
    with Cons.prems show ?thesis by (cases it) auto
  next
    case False
    show ?thesis
    proof (cases it)
      case TarBad
      with False Cons.prems show ?thesis by auto
    next
      case (TarNext header body copyFails)
      let ?st = "(xStats s)\<lparr>ProcessedFiles := int fc + 1, CurrentFile := tarName header\<rparr>"
      let ?s1 = "s\<lparr>xStats := ?st,
          xTrace := xTrace s @ reportX opts (int fc + 1) 0 (tarName header) ?st\<rparr>"
      have o1: "ordered fc (int fc + 1) (xTrace ?s1)"
        using ordered_reportX [OF Cons.prems(1,2), of ?st opts 0 "tarName header"] by simp
      obtain e s2 where b: "tarEntryBody opts header body copyFails ?s1 = (e, s2)"
        by (cases "tarEntryBody opts header body copyFails ?s1")
      from tarEntryBody_ordered [OF b o1] tarEntryBody_ProcessedFiles [OF b]
      have o2: "ordered (Suc fc) (ProcessedFiles (xStats s2)) (xTrace s2)"
        and p2: "ProcessedFiles (xStats s2) \<le> int (Suc fc)" by simp_all
      show ?thesis
      proof (cases e)
        case None
        with False b TarNext Cons.prems(3)
        have "untarLoop ctx opts (Suc fc) rest s2 = (r, s')" by (simp add: Let_def)
        from Cons.IH [OF o2 p2 this] show ?thesis .
      next
        case (Some err)
        with False b TarNext Cons.prems(3) have "s' = s2" by (simp add: Let_def)
        with o2 show ?thesis by blast
      qed
    qed
  qed
qed

lemma ordered_orderedRun: "ordered j p tr \<Longrightarrow> orderedRun tr (Some p) \<and> orderedRun tr None"
  by (simp add: ordered_def orderedRun_def list_all_iff)

lemma ordered_Nil: "ordered 0 0 []"
  by (simp add: ordered_def doneCount_def snapshotNumbers_def)

lemma compressZip_ordered:
  assumes "compressZip L ctx fl opts w s = (r, w', s')"
    and "ordered 0 (ProcessedFiles (stats s)) (trace s)" and "ProcessedFiles (stats s) \<le> 0"
  shows "\<exists>j. ordered j (ProcessedFiles (stats s')) (trace s')"
proof (cases "os_WriteFile w (Output opts) []")
  case (Inl e)
  with assms show ?thesis by (auto simp: compressZip_def)
next
  case (Inr w1)
  with assms(1) have "zipLoop L ctx w1 opts (int (length fl)) 0 fl s = (r, s')"
    by (auto simp: compressZip_def split: prod.splits)
  from zipLoop_ordered [OF _ _ this] assms(2,3) show ?thesis by simp
qed

lemma compressTarPlain_ordered:
  assumes "compressTarPlain L fmt ctx fl opts w s = (r, w', s')"
    and "ordered 0 (ProcessedFiles (stats s)) (trace s)" and "ProcessedFiles (stats s) \<le> 0"
  shows "\<exists>j. ordered j (ProcessedFiles (stats s')) (trace s')"
proof (cases "os_WriteFile w (Output opts) []")
  case (Inl e)
  with assms show ?thesis by (auto simp: compressTarPlain_def compressTar_def)
next
  case (Inr w1)
  with assms(1) have "tarLoop L fmt ctx w1 opts (int (length fl)) 0 fl s = (r, s')"
    by (auto simp: compressTarPlain_def compressTar_def split: prod.splits)
  from tarLoop_ordered [OF _ _ this] assms(2,3) show ?thesis by simp
qed

lemma compressTarChecked_ordered:
  assumes "compressTarChecked L fmt ctx fl opts w s = (r, w', s')"
    and "ordered 0 (ProcessedFiles (stats s)) (trace s)" and "ProcessedFiles (stats s) \<le> 0"
  shows "\<exists>j. ordered j (ProcessedFiles (stats s')) (trace s')"
proof (cases "os_WriteFile w (Output opts) []")
  case (Inl e)
  with assms show ?thesis by (auto simp: compressTarChecked_def compressTar_def)
next
  case (Inr w1)
  show ?thesis
  proof (cases "newWriterFails L fmt")
    case True
    with Inr assms show ?thesis by (auto simp: compressTarChecked_def compressTar_def)
  next
    case False
    with Inr assms(1) have "tarLoop L fmt ctx w1 opts (int (length fl)) 0 fl s = (r, s')"
      by (auto simp: compressTarChecked_def compressTar_def split: prod.splits)
    from tarLoop_ordered [OF _ _ this] assms(2,3) show ?thesis by simp
  qed
qed

lemma finishCompress_ordered:
  assumes "r = (e, w', s')" and "ordered j (ProcessedFiles (stats s')) (trace s')"
  shows "orderedRun (cTrace (finishCompress opts r))
           (map_option ProcessedFiles (cStats (finishCompress opts r)))"
proof (cases e)
  case None
  with assms(1) have "cTrace (finishCompress opts r) = trace s'"
    and "map_option ProcessedFiles (cStats (finishCompress opts r)) = Some (ProcessedFiles (stats s'))"
    by (auto simp: finishCompress_def Let_def split: sum.splits)
  with ordered_orderedRun [OF assms(2)] show ?thesis by auto
next
  case (Some err)
  with assms(1) have "cTrace (finishCompress opts r) = trace s'"
    and "map_option ProcessedFiles (cStats (finishCompress opts r)) = None"
    by (auto simp: finishCompress_def)
  with ordered_orderedRun [OF assms(2)] show ?thesis by simp
qed

lemma orderedRun_Nil: "orderedRun [] None"
  by (simp add: orderedRun_def snapshotNumbers_def)

lemma Compress_ordered:
  "orderedRun (cTrace (Compress L ctx opts w))
     (map_option ProcessedFiles (cStats (Compress L ctx opts w)))"
proof (cases "os_Stat w (Source opts)")
  case (Inl e)
  then show ?thesis by (simp add: Compress_defs orderedRun_Nil)
next
  case (Inr n)
  note st = Inr
  show ?thesis
  proof (cases "collectFiles w (Source opts) (Excludes opts)")
    case (Inl e)
    with st show ?thesis by (simp add: Compress_defs orderedRun_Nil)
  next
    case (Inr c)
    let ?s = "\<lparr>stats = zeroCompressStats\<lparr>TotalFiles := int (length (files c)),
        TotalSize := totalSize c, ExcludedFiles := excludedCount c\<rparr>, trace = []\<rparr>"
    have i: "ordered 0 (ProcessedFiles (stats ?s)) (trace ?s)" "ProcessedFiles (stats ?s) \<le> 0"
      using ordered_Nil by (simp_all add: zeroCompressStats_def)
    have z: "orderedRun (cTrace (finishCompress opts (compressZip L ctx (files c) opts w ?s)))
        (map_option ProcessedFiles (cStats (finishCompress opts (compressZip L ctx (files c) opts w ?s))))"
    proof -
      obtain e w' s' where r: "compressZip L ctx (files c) opts w ?s = (e, w', s')"
        by (cases "compressZip L ctx (files c) opts w ?s")
      from compressZip_ordered [OF r i] obtain j
        where "ordered j (ProcessedFiles (stats s')) (trace s')" by blast
      from finishCompress_ordered [OF r this] show ?thesis .
    qed
    have p: "orderedRun (cTrace (finishCompress opts (compressTarPlain L fmt ctx (files c) opts w ?s)))
        (map_option ProcessedFiles
           (cStats (finishCompress opts (compressTarPlain L fmt ctx (files c) opts w ?s))))" for fmt
    proof -
      obtain e w' s' where r: "compressTarPlain L fmt ctx (files c) opts w ?s = (e, w', s')"
        by (cases "compressTarPlain L fmt ctx (files c) opts w ?s")
      from compressTarPlain_ordered [OF r i] obtain j
        where "ordered j (ProcessedFiles (stats s')) (trace s')" by blast
      from finishCompress_ordered [OF r this] show ?thesis .
    qed
    have k: "orderedRun (cTrace (finishCompress opts (compressTarChecked L fmt ctx (files c) opts w ?s)))
        (map_option ProcessedFiles
           (cStats (finishCompress opts (compressTarChecked L fmt ctx (files c) opts w ?s))))" for fmt
    proof -
      obtain e w' s' where r: "compressTarChecked L fmt ctx (files c) opts w ?s = (e, w', s')"
        by (cases "compressTarChecked L fmt ctx (files c) opts w ?s")
      from compressTarChecked_ordered [OF r i] obtain j
        where "ordered j (ProcessedFiles (stats s')) (trace s')" by blast
      from finishCompress_ordered [OF r this] show ?thesis .
    qed
    from st Inr z p k show ?thesis
      by (simp add: Compress_defs Let_def orderedRun_Nil)
  qed
qed

lemma finishExtract_ordered:
  assumes "r = (e, s')" and "ordered j (ProcessedFiles (xStats s')) (xTrace s')"
  shows "orderedRun (xrTrace (finishExtract r))
           (map_option ProcessedFiles (xrStats (finishExtract r)))"
  using assms ordered_orderedRun [OF assms(2)]
  by (cases e) (simp_all add: finishExtract_def)

lemma extractZip_ordered:
  assumes "extractZip L ctx opts s = (r, s')"
    and "ordered 0 (ProcessedFiles (xStats s)) (xTrace s)" and "ProcessedFiles (xStats s) \<le> 0"
  shows "\<exists>j. ordered j (ProcessedFiles (xStats s')) (xTrace s')"
proof (cases "os_Open (xFs s) (Source opts)")
  case (Inl e)
  with assms show ?thesis by (auto simp: extractZip_def)
next
  case (Inr inp)
  show ?thesis
  proof (cases "zipOpen L inp")
    case None
    with Inr assms show ?thesis by (auto simp: extractZip_def)
  next
    case (Some zfiles)
    let ?s = "s\<lparr>xStats := (xStats s)\<lparr>TotalFiles := int (length zfiles)\<rparr>\<rparr>"
    from Some Inr assms(1)
    have "unzipLoop ctx opts (int (length zfiles)) 0 zfiles ?s = (r, s')"
      by (simp add: extractZip_def)
    from unzipLoop_ordered [OF _ _ this] assms(2,3) show ?thesis by simp
  qed
qed

lemma extractTarChecked_ordered:
  assumes "extractTarChecked L fmt ctx opts s = (r, s')"
    and "ordered 0 (ProcessedFiles (xStats s)) (xTrace s)" and "ProcessedFiles (xStats s) \<le> 0"
  shows "\<exists>j. ordered j (ProcessedFiles (xStats s')) (xTrace s')"
proof (cases "os_Open (xFs s) (Source opts)")
  case (Inl e)
  with assms show ?thesis by (auto simp: extractTarChecked_def extractTarReader_def)
next
  case (Inr inp)
  show ?thesis
  proof (cases "newReaderFails L fmt inp")
    case True
    with Inr assms show ?thesis by (auto simp: extractTarChecked_def extractTarReader_def)
  next
    case False
    with Inr assms(1) have "untarLoop ctx opts 0 (tarItems L fmt inp) s = (r, s')"
      by (simp add: extractTarChecked_def extractTarReader_def)
    from untarLoop_ordered [OF _ _ this] assms(2,3) show ?thesis by simp
  qed
qed

lemma extractTarPlain_ordered:
  assumes "extractTarPlain L fmt ctx opts s = (r, s')"
    and "ordered 0 (ProcessedFiles (xStats s)) (xTrace s)" and "ProcessedFiles (xStats s) \<le> 0"
  shows "\<exists>j. ordered j (ProcessedFiles (xStats s')) (xTrace s')"
proof (cases "os_Open (xFs s) (Source opts)")
  case (Inl e)
  with assms show ?thesis by (auto simp: extractTarPlain_def extractTarReader_def)
next
  case (Inr inp)
  with assms(1) have "untarLoop ctx opts 0 (tarItems L fmt inp) s = (r, s')"
    by (simp add: extractTarPlain_def extractTarReader_def)
  from untarLoop_ordered [OF _ _ this] assms(2,3) show ?thesis by simp
qed

lemma Extract_ordered:
  "orderedRun (xrTrace (Extract L ctx opts w))
     (map_option ProcessedFiles (xrStats (Extract L ctx opts w)))"
proof (cases "os_Stat w (Source opts)")
  case (Inl e)
  then show ?thesis by (simp add: Extract_defs orderedRun_Nil)
next
  case (Inr sourceInfo)
  note st = Inr
  show ?thesis
  proof (cases "DetectArchiveFormat (lowerRunes L) (Source opts) = []")
    case True
    with st show ?thesis by (simp add: Extract_defs orderedRun_Nil)
  next
    case False
    note fm = False
    show ?thesis
    proof (cases "os_MkdirAll w (Output opts)")
      case (Inl e)
      with st fm show ?thesis by (simp add: Extract_defs orderedRun_Nil)
    next
      case (Inr w1)
      let ?s = "\<lparr>xStats = zeroExtractStats\<lparr>TotalSize := nodeSize sourceInfo\<rparr>,
          xTrace = [], xFs = w1\<rparr>"
      have i: "ordered 0 (ProcessedFiles (xStats ?s)) (xTrace ?s)" "ProcessedFiles (xStats ?s) \<le> 0"
        using ordered_Nil by (simp_all add: zeroExtractStats_def)
      have z: "orderedRun (xrTrace (finishExtract (extractZip L ctx opts ?s)))
          (map_option ProcessedFiles (xrStats (finishExtract (extractZip L ctx opts ?s))))"
      proof -
        obtain e s' where r: "extractZip L ctx opts ?s = (e, s')"
          by (cases "extractZip L ctx opts ?s")
        from extractZip_ordered [OF r i] obtain j
          where "ordered j (ProcessedFiles (xStats s')) (xTrace s')" by blast
        from finishExtract_ordered [OF r this] show ?thesis .
      qed
      have p: "orderedRun (xrTrace (finishExtract (extractTarPlain L fmt ctx opts ?s)))
          (map_option ProcessedFiles (xrStats (finishExtract (extractTarPlain L fmt ctx opts ?s))))"
        for fmt
      proof -
        obtain e s' where r: "extractTarPlain L fmt ctx opts ?s = (e, s')"
          by (cases "extractTarPlain L fmt ctx opts ?s")
        from extractTarPlain_ordered [OF r i] obtain j
          where "ordered j (ProcessedFiles (xStats s')) (xTrace s')" by blast
        from finishExtract_ordered [OF r this] show ?thesis .
      qed
      have k: "orderedRun (xrTrace (finishExtract (extractTarChecked L fmt ctx opts ?s)))
          (map_option ProcessedFiles (xrStats (finishExtract (extractTarChecked L fmt ctx opts ?s))))"
        for fmt
      proof -
        obtain e s' where r: "extractTarChecked L fmt ctx opts ?s = (e, s')"
          by (cases "extractTarChecked L fmt ctx opts ?s")
        from extractTarChecked_ordered [OF r i] obtain j
          where "ordered j (ProcessedFiles (xStats s')) (xTrace s')" by blast
        from finishExtract_ordered [OF r this] show ?thesis .
      qed
      from st fm Inr z p k show ?thesis
        by (simp add: Extract_defs Let_def orderedRun_Nil)
    qed
  qed
qed

text \<open>
  C4, as the code has it. In every run of \<open>Compress\<close> and of \<open>Extract\<close>, the callbacks for
  an entry are called before the entry is written to the archive or put in place in the
  output directory, when fewer entries are done than the number the callbacks report;
  the snapshots come with increasing counts of processed files; and the statistics
  returned at the end count at least as many processed files as every snapshot.
\<close>

theorem C4_reports_come_before:
  "reportedBefore 0 (cTrace (Compress L ctx copts w))
   \<and> sorted_wrt (<) (snapshotNumbers (cTrace (Compress L ctx copts w)))
   \<and> (\<forall>st. cStats (Compress L ctx copts w) = Some st \<longrightarrow>
        (\<forall>c\<in>set (snapshotNumbers (cTrace (Compress L ctx copts w))). c \<le> ProcessedFiles st))
   \<and> reportedBefore 0 (xrTrace (Extract L ctx xopts w))
   \<and> sorted_wrt (<) (snapshotNumbers (xrTrace (Extract L ctx xopts w)))
   \<and> (\<forall>st. xrStats (Extract L ctx xopts w) = Some st \<longrightarrow>
        (\<forall>c\<in>set (snapshotNumbers (xrTrace (Extract L ctx xopts w))). c \<le> ProcessedFiles st))"
  using Compress_ordered [of L ctx copts w] Extract_ordered [of L ctx xopts w]
  by (auto simp: orderedRun_def list_all_iff)

theorem C4_reports_come_before_witness:
  "reportedBefore 0 (cTrace (Compress demoCodecs noCancel (zipOpts\<lparr>Excludes := []\<rparr>) demoFs))
   \<and> snapshotNumbers (cTrace (Compress demoCodecs noCancel (zipOpts\<lparr>Excludes := []\<rparr>) demoFs))
       = [1, 2, 3]
   \<and> map_option ProcessedFiles (cStats (Compress demoCodecs noCancel (zipOpts\<lparr>Excludes := []\<rparr>) demoFs))
       = Some 3
   \<and> reportedBefore 0 (xrTrace (Extract clashCodecs noCancel slipOpts demoFs))
   \<and> snapshotNumbers (xrTrace (Extract clashCodecs noCancel slipOpts demoFs)) = [1, 2]"
proof -
  have a: "snapshotNumbers (cTrace (Compress demoCodecs noCancel (zipOpts\<lparr>Excludes := []\<rparr>) demoFs))
       = [1, 2, 3]" by code_simp
  have b: "map_option ProcessedFiles
       (cStats (Compress demoCodecs noCancel (zipOpts\<lparr>Excludes := []\<rparr>) demoFs)) = Some 3"
    by code_simp
  have c: "snapshotNumbers (xrTrace (Extract clashCodecs noCancel slipOpts demoFs)) = [1, 2]"
    by code_simp
  from C4_reports_come_before [of demoCodecs noCancel "zipOpts\<lparr>Excludes := []\<rparr>" demoFs slipOpts]
    C4_reports_come_before [of clashCodecs noCancel zipOpts demoFs slipOpts] a b c
  show ?thesis by blast
qed

theorem C4_report_precedes_entry_counterexample:
  "\<not> reportedAfter 0 (cTrace (Compress demoCodecs noCancel zipOpts demoFs))
   \<and> \<not> reportedAfter 0 (xrTrace (Extract slipCodecs noCancel slipOpts demoFs))
   \<and> map isDone (cTrace (Compress demoCodecs noCancel zipOpts demoFs)) = [False, False, True]
   \<and> map entryNumber (cTrace (Compress demoCodecs noCancel zipOpts demoFs)) = [Some 1, Some 1, None]"
  by code_simp

section \<open>What the adapters write\<close>



lemma written_snoc: "written (tr @ [Wrote e]) = written tr @ [e]"
  by (simp add: written_def)







end
